theory Spec2Isabelle
  imports Main "HOL-Library.Word"
begin

unbundle bit_operations_syntax

section \<open>Machine words, error numbers and kernel memory\<close>

type_synonym u8 = "8 word"
type_synonym u32 = "32 word"
type_synonym u64 = "64 word"

text \<open>
  Pointers are 64-bit addresses; the null pointer is address 0. Pointer arithmetic
  wraps as the machine's does.
\<close>

type_synonym addr = "64 word"
type_synonym memory = "addr \<Rightarrow> u8"

text \<open>
  The error numbers of \<^verbatim>\<open>errno.h\<close> that bus.c, ns.c and metadata.c return.
  The functions return a C \<^verbatim>\<open>int\<close>: 0 for success, and by convention the
  negated error number for failure.
\<close>

definition EPERM :: int where "EPERM = 1"
definition ENOMEM :: int where "ENOMEM = 12"
definition EFAULT :: int where "EFAULT = 14"
definition EEXIST :: int where "EEXIST = 17"
definition EINVAL :: int where "EINVAL = 22"
definition ENAMETOOLONG :: int where "ENAMETOOLONG = 36"
definition EBADMSG :: int where "EBADMSG = 74"
definition EMSGSIZE :: int where "EMSGSIZE = 90"
definition ENOTSUPP :: int where "ENOTSUPP = 524"

text \<open>A \<^verbatim>\<open>u64\<close> in memory: eight bytes, least significant first.\<close>

fun le_u64 :: "u8 list \<Rightarrow> u64" where
  "le_u64 [] = 0"
| "le_u64 (b # bs) = ucast b + push_bit 8 (le_u64 bs)"

definition load_u64 :: "memory \<Rightarrow> addr \<Rightarrow> u64" where
  "load_u64 mem a =
     le_u64 [mem a, mem (a + 1), mem (a + 2), mem (a + 3),
             mem (a + 4), mem (a + 5), mem (a + 6), mem (a + 7)]"

definition u64_bytes :: "u64 \<Rightarrow> u8 list" where
  "u64_bytes v =
     [ucast v, ucast (drop_bit 8 v), ucast (drop_bit 16 v), ucast (drop_bit 24 v),
      ucast (drop_bit 32 v), ucast (drop_bit 40 v), ucast (drop_bit 48 v),
      ucast (drop_bit 56 v)]"

text \<open>
  \<^verbatim>\<open>#define KDBUS_ALIGN8(l) (((l) + 7) & ~7)\<close> on a 64-bit operand; the sum wraps.
\<close>

definition KDBUS_ALIGN8 :: "u64 \<Rightarrow> u64" where
  "KDBUS_ALIGN8 l = (l + 7) AND NOT 7"

text \<open>
  \<^verbatim>\<open>KDBUS_IS_ALIGNED8\<close> is used by bus.c and declared in a header that is not part
  of the sources at hand; it tests the three low bits.
\<close>

definition KDBUS_IS_ALIGNED8 :: "u64 \<Rightarrow> bool" where
  "KDBUS_IS_ALIGNED8 l \<longleftrightarrow> l AND 7 = 0"

text \<open>
  \<^verbatim>\<open>KDBUS_ITEM_HEADER_SIZE\<close> is \<^verbatim>\<open>offsetof(struct kdbus_item, data)\<close>: the
  two \<^verbatim>\<open>u64\<close> fields \<^verbatim>\<open>size\<close> and \<^verbatim>\<open>type\<close>.
\<close>

definition KDBUS_ITEM_HEADER_SIZE :: u64 where
  "KDBUS_ITEM_HEADER_SIZE = 16"

definition KDBUS_ITEM_SIZE :: "u64 \<Rightarrow> u64" where
  "KDBUS_ITEM_SIZE s = KDBUS_ALIGN8 (s + KDBUS_ITEM_HEADER_SIZE)"


section \<open>bus.c: parsing the make-bus command (\<^verbatim>\<open>kdbus_bus_make_user\<close>)\<close>

text \<open>
  The item types of the make command. Their numeric values are declared in kdbus.h,
  which is not among the sources; the parser only needs them to be two different
  case labels.
\<close>

definition KDBUS_CMD_MAKE_NAME :: u64 where "KDBUS_CMD_MAKE_NAME = 1"
definition KDBUS_CMD_MAKE_CGROUP :: u64 where "KDBUS_CMD_MAKE_CGROUP = 2"

text \<open>
  \<^verbatim>\<open>struct kdbus_cmd_bus_make { __u64 size; __u64 flags; __u64 bloom_size;
  struct kdbus_cmd_make_item items[0]; }\<close>: the items start at offset 24, which is
  also \<^verbatim>\<open>sizeof(struct kdbus_cmd_bus_make)\<close>. An item is
  \<^verbatim>\<open>{ __u64 size; __u64 type; payload }\<close>.
\<close>

definition sizeof_kdbus_cmd_bus_make :: u64 where
  "sizeof_kdbus_cmd_bus_make = 24"

text \<open>
  The fields of \<^verbatim>\<open>struct kdbus_cmd_bus_kmake\<close> that the parser fills in beside
  the copied command: \<^verbatim>\<open>name\<close> is a pointer into the copy (null until a name item
  is accepted), \<^verbatim>\<open>cgroup_id\<close> is a number (0 until a cgroup item is accepted).
  \<^verbatim>\<open>km_make\<close> is the address of the embedded copy \<^verbatim>\<open>km->make\<close> of the
  command (the fields carry the prefix \<open>km_\<close> here).
\<close>

record kdbus_cmd_bus_kmake =
  km_name :: addr
  km_cgroup_id :: u64
  km_make :: addr

text \<open>
  Modelled from the spec: \<^verbatim>\<open>kdbus_validate_nul\<close> is declared in a header that is
  not among the sources. The payload of \<open>l\<close> bytes at \<open>s\<close> is a valid NUL-terminated
  string when it is not empty and its first NUL byte is its last byte.
\<close>

definition kdbus_validate_nul :: "memory \<Rightarrow> addr \<Rightarrow> u64 \<Rightarrow> bool" where
  "kdbus_validate_nul mem s l \<longleftrightarrow>
     l \<noteq> 0 \<and> list_all (\<lambda>k. mem (s + of_nat k) \<noteq> 0) [0..<unat l - 1]
       \<and> mem (s + l - 1) = 0"

text \<open>
  The body of the \<^verbatim>\<open>KDBUS_ITEM_FOREACH\<close> loop for the item at address \<open>item\<close>:
  either the error the function leaves with (\<^verbatim>\<open>goto out_err\<close>), or the updated
  \<^verbatim>\<open>km\<close> with which the loop continues.
\<close>

definition make_item :: "memory \<Rightarrow> kdbus_cmd_bus_kmake \<Rightarrow> addr \<Rightarrow> int + kdbus_cmd_bus_kmake" where
  "make_item mem km item =
     (let item_size = load_u64 mem item; item_type = load_u64 mem (item + 8) in
      if item_size \<le> KDBUS_ITEM_HEADER_SIZE then Inl (- EINVAL)
      else if item_type = KDBUS_CMD_MAKE_NAME then
        (if km_name km \<noteq> 0 then Inl (- EEXIST)
         else if item_size < KDBUS_ITEM_HEADER_SIZE + 2 then Inl (- EINVAL)
         else if item_size > KDBUS_ITEM_HEADER_SIZE + 64 then Inl (- ENAMETOOLONG)
         else if \<not> kdbus_validate_nul mem (item + 16) (item_size - KDBUS_ITEM_HEADER_SIZE)
           then Inl (- EINVAL)
         else Inr (km\<lparr>km_name := item + 16\<rparr>))
      else if item_type = KDBUS_CMD_MAKE_CGROUP then
        (if km_cgroup_id km \<noteq> 0 then Inl (- EEXIST)
         else Inr (km\<lparr>km_cgroup_id := load_u64 mem (item + 16)\<rparr>))
      else Inl (- ENOTSUPP))"

text \<open>
  \<^verbatim>\<open>KDBUS_ITEM_FOREACH(item, &km->make)\<close>. The two-argument macro of the kernel
  side is declared in a header that is not among the sources; it is taken to be the
  macro of test/kdbus-util.h with \<^verbatim>\<open>items\<close> as the first item: the loop runs
  while \<^verbatim>\<open>(u8 *)item < (u8 *)head + head->size\<close> and steps by
  \<^verbatim>\<open>KDBUS_ALIGN8(item->size)\<close>. Nothing bounds the step from below (an item size
  of \<^verbatim>\<open>2^64 - 1\<close> aligns to 0), so the loop need not end: the result is
  \<open>None\<close> when it does not.
\<close>

partial_function (option) item_foreach ::
  "memory \<Rightarrow> kdbus_cmd_bus_kmake \<Rightarrow> addr \<Rightarrow> (int + kdbus_cmd_bus_kmake \<times> addr) option"
where
  "item_foreach mem km item =
     (if item < km_make km + load_u64 mem (km_make km) then
        (case make_item mem km item of
           Inl err \<Rightarrow> Some (Inl err)
         | Inr km' \<Rightarrow> item_foreach mem km' (item + KDBUS_ALIGN8 (load_u64 mem item)))
      else Some (Inr (km, item)))"

declare item_foreach.simps [code]

text \<open>
  The course of the loop, for stating what it has seen: \<open>visits mem km0 item0 seen km
  item\<close> holds when the loop started with \<open>km0\<close> at \<open>item0\<close> is at its head with
  \<open>km\<close> and the cursor at \<open>item\<close>, after the bodies of the items at the addresses
  \<open>seen\<close> (oldest first) have run without error.
\<close>

inductive visits ::
  "memory \<Rightarrow> kdbus_cmd_bus_kmake \<Rightarrow> addr \<Rightarrow> addr list \<Rightarrow> kdbus_cmd_bus_kmake \<Rightarrow> addr \<Rightarrow> bool"
  for mem :: memory and km0 :: kdbus_cmd_bus_kmake and item0 :: addr
where
  first: "visits mem km0 item0 [] km0 item0"
| step: "visits mem km0 item0 seen km item \<Longrightarrow>
         item < km_make km + load_u64 mem (km_make km) \<Longrightarrow>
         make_item mem km item = Inr km' \<Longrightarrow>
         visits mem km0 item0 (seen @ [item]) km' (item + KDBUS_ALIGN8 (load_u64 mem item))"

text \<open>
  What the caller's environment decides: the user memory readable at \<^verbatim>\<open>buf\<close>
  (\<open>ubuf\<close>, byte by byte from \<^verbatim>\<open>buf\<close> on), the outcome of \<^verbatim>\<open>kmalloc\<close>
  (\<open>None\<close> when it fails, else the address at which \<^verbatim>\<open>km->make\<close> comes to lie),
  and the contents of kernel memory before the copy.
\<close>

record make_user_env =
  ubuf :: "u8 list"
  kmalloc_km :: "addr option"
  heap :: memory

definition copy_from_user :: "memory \<Rightarrow> addr \<Rightarrow> u8 list \<Rightarrow> u64 \<Rightarrow> memory" where
  "copy_from_user mem dst src n =
     (\<lambda>a. if a - dst < n then src ! unat (a - dst) else mem a)"

text \<open>
  Modelled from the spec: \<^verbatim>\<open>kdbus_size_get_user\<close> is a macro of a header that is
  not among the sources. It fetches the leading \<^verbatim>\<open>size\<close> field of the command
  from user memory, and fails when that memory cannot be read.
\<close>

definition kdbus_size_get_user :: "u8 list \<Rightarrow> u64 option" where
  "kdbus_size_get_user buf = (if length buf < 8 then None else Some (le_u64 (take 8 buf)))"

text \<open>
  The function returns the C \<^verbatim>\<open>int\<close> and, when it stores one, the parsed command
  \<^verbatim>\<open>*kmake\<close> together with the kernel memory it points into. The result is
  \<open>None\<close> when the item loop does not end.
\<close>

definition kdbus_bus_make_user ::
  "make_user_env \<Rightarrow> (int \<times> (kdbus_cmd_bus_kmake \<times> memory) option) option"
where
  "kdbus_bus_make_user env =
     (case kdbus_size_get_user (ubuf env) of
        None \<Rightarrow> Some (- EFAULT, None)
      | Some sz \<Rightarrow>
      if sz < sizeof_kdbus_cmd_bus_make \<or> sz > 0xffff then Some (- EMSGSIZE, None)
      else case kmalloc_km env of
        None \<Rightarrow> Some (- ENOMEM, None)
      | Some head \<Rightarrow>
        if length (ubuf env) < unat sz then Some (- EFAULT, None)
        else let mem = copy_from_user (heap env) head (ubuf env) sz;
                 km0 = \<lparr>km_name = 0, km_cgroup_id = 0, km_make = head\<rparr> in
        case item_foreach mem km0 (head + sizeof_kdbus_cmd_bus_make) of
          None \<Rightarrow> None
        | Some (Inl err) \<Rightarrow> Some (err, None)
        | Some (Inr (km, item)) \<Rightarrow>
            if 8 \<le> sint (item - (km_make km + load_u64 mem (km_make km))) then Some (EINVAL, None)
            else if km_name km = 0 then Some (- EBADMSG, None)
            else if \<not> KDBUS_IS_ALIGNED8 (load_u64 mem (km_make km + 16)) then Some (- EINVAL, None)
            else if load_u64 mem (km_make km + 16) < 8 \<or> load_u64 mem (km_make km + 16) > 16 * 1024
              then Some (- EINVAL, None)
            else Some (0, Some (km, mem)))"

text \<open>
  Commands to run the parser on: a command is its header (size, flags, bloom size)
  followed by the items; an item is its size, its type and its payload. The kernel is
  taken to place the copy at address \<^verbatim>\<open>0xFFFF880000100000\<close>, in zeroed memory.
\<close>

definition item_bytes :: "u64 \<Rightarrow> u64 \<Rightarrow> u8 list \<Rightarrow> u8 list" where
  "item_bytes item_size item_type payload = u64_bytes item_size @ u64_bytes item_type @ payload"

definition frame :: "u64 \<Rightarrow> u64 \<Rightarrow> u8 list \<Rightarrow> u8 list" where
  "frame sz bloom items = u64_bytes sz @ u64_bytes 0 @ u64_bytes bloom @ items"

definition name_1000_test :: "u8 list" where
  "name_1000_test =
     [0x31, 0x30, 0x30, 0x30, 0x2d, 0x74, 0x65, 0x73, 0x74, 0, 0, 0, 0, 0, 0, 0]"

definition frame_named :: "u64 \<Rightarrow> u8 list" where
  "frame_named bloom = frame 56 bloom (item_bytes 26 KDBUS_CMD_MAKE_NAME name_1000_test)"

definition frame_cgroup :: "u64 \<Rightarrow> u64 \<Rightarrow> u8 list" where
  "frame_cgroup sz item_size =
     frame sz 64 (item_bytes item_size KDBUS_CMD_MAKE_CGROUP (u64_bytes 1))"

definition kmem :: "u8 list \<Rightarrow> memory" where
  "kmem cmd = copy_from_user (\<lambda>_. 0) 0xFFFF880000100000 cmd (le_u64 (take 8 cmd))"

definition env_of :: "u8 list \<Rightarrow> make_user_env" where
  "env_of cmd = \<lparr>ubuf = cmd, kmalloc_km = Some 0xFFFF880000100000, heap = (\<lambda>_. 0)\<rparr>"


definition cmd_empty_item :: "u8 list" where
  "cmd_empty_item = frame 40 64 (item_bytes 16 KDBUS_CMD_MAKE_NAME [])"

definition cmd_two_names :: "u8 list" where
  "cmd_two_names = frame 88 64
     (item_bytes 26 KDBUS_CMD_MAKE_NAME name_1000_test @
      item_bytes 26 KDBUS_CMD_MAKE_NAME name_1000_test)"

definition cmd_short_name :: "u8 list" where
  "cmd_short_name = frame 48 64 (item_bytes 17 KDBUS_CMD_MAKE_NAME [0, 0, 0, 0, 0, 0, 0, 0])"

definition cmd_long_name :: "u8 list" where
  "cmd_long_name = frame 48 64
     (item_bytes 81 KDBUS_CMD_MAKE_NAME [0x41, 0x41, 0x41, 0x41, 0x41, 0x41, 0x41, 0x41])"

definition cmd_unterminated :: "u8 list" where
  "cmd_unterminated = frame 48 64
     (item_bytes 20 KDBUS_CMD_MAKE_NAME [0x61, 0x62, 0x63, 0x64, 0, 0, 0, 0])"

definition cmd_unknown :: "u8 list" where
  "cmd_unknown = frame 48 64 (item_bytes 24 7 (u64_bytes 0))"


section \<open>bus.c and ns.c: the kernel objects\<close>

text \<open>
  Objects live in the kernel heap and are known by their addresses (\<open>ref\<close>). The state
  holds the two file-level variables of ns.c (\<^verbatim>\<open>namespace_list\<close>,
  \<^verbatim>\<open>kdbus_ns_id_next\<close>), the major index \<^verbatim>\<open>kdbus_ns_major_idr\<close>, the namespaces and
  buses that are allocated, and the calls made so far to code outside bus.c and ns.c
  (endpoints, name registry, driver core), oldest first. Locks are not modelled: one
  call runs at a time.
\<close>

type_synonym ref = nat
type_synonym umode_t = "16 word"
type_synonym kuid_t = u32
type_synonym kgid_t = u32

text \<open>
  A call either returns, or it makes an invalid memory access (\<open>Fault\<close>: it reads or
  writes through a null pointer or through a pointer to an object that is not allocated);
  what the machine does after that is outside the model.
\<close>

datatype 'a outcome = Return 'a | Fault

datatype c_int = Value int | Indeterminate

datatype event =
    Kdbus_ep_new ref string umode_t kuid_t kgid_t u64
  | Kdbus_ep_disconnect ref
  | Kdbus_ep_unref ref
  | Kdbus_name_registry_unref "ref option"
  | Device_unregister ref
  | Put_device ref
  | Unregister_chrdev int

record kdbus_bus =
  bus_kref :: nat
  bus_disconnected :: bool
  bus_ns :: ref
  bus_name :: "string option"
  bus_id :: u64
  bus_flags :: u64
  bloom_size :: u64
  cgroup_id :: u64
  conn_id_next :: u64
  conn_hash :: "(u64 \<times> ref) list"
  ep_list :: "ref list"
  name_registry :: "ref option"

record kdbus_ns =
  ns_kref :: nat
  ns_disconnected :: bool
  ns_name :: "string option"
  ns_parent :: "ref option"
  ns_id :: u64
  devpath :: "string option"
  major :: int
  dev :: "ref option"
  bus_list :: "ref list"
  bus_id_next :: u64

record kdbus_state =
  namespace_list :: "ref list"
  kdbus_ns_id_next :: u64
  kdbus_ns_major_idr :: "int \<rightharpoonup> ref"
  nss :: "ref \<rightharpoonup> kdbus_ns"
  buses :: "ref \<rightharpoonup> kdbus_bus"
  calls :: "event list"

definition call :: "event \<Rightarrow> kdbus_state \<Rightarrow> kdbus_state" where
  "call e s = s\<lparr>calls := calls s @ [e]\<rparr>"

text \<open>
  \<^verbatim>\<open>strcmp\<close> and \<^verbatim>\<open>strncmp\<close> of the kernel's lib/string.c, on C strings given by
  their characters before the terminating NUL: the result is 0, -1 or 1.
\<close>

fun strncmp :: "string \<Rightarrow> string \<Rightarrow> nat \<Rightarrow> int" where
  "strncmp cs ct 0 = 0"
| "strncmp [] [] (Suc n) = 0"
| "strncmp [] (c2 # ct) (Suc n) = - 1"
| "strncmp (c1 # cs) [] (Suc n) = 1"
| "strncmp (c1 # cs) (c2 # ct) (Suc n) =
     (if c1 \<noteq> c2 then (if (of_char c1 :: nat) < of_char c2 then - 1 else 1)
      else strncmp cs ct n)"

fun strcmp :: "string \<Rightarrow> string \<Rightarrow> int" where
  "strcmp [] [] = 0"
| "strcmp [] (c2 # ct) = - 1"
| "strcmp (c1 # cs) [] = 1"
| "strcmp (c1 # cs) (c2 # ct) =
     (if c1 \<noteq> c2 then (if (of_char c1 :: nat) < of_char c2 then - 1 else 1)
      else strcmp cs ct)"

text \<open>
  \<^verbatim>\<open>strcmp\<close> called on pointers: it reads through both, so a null pointer is an
  invalid memory access.
\<close>

definition strcmp_ptr :: "string option \<Rightarrow> string option \<Rightarrow> int outcome" where
  "strcmp_ptr p q =
     (case p of None \<Rightarrow> Fault
      | Some cs \<Rightarrow> (case q of None \<Rightarrow> Fault | Some ct \<Rightarrow> Return (strcmp cs ct)))"

text \<open>\<^verbatim>\<open>snprintf(prefix, sizeof(prefix), "%u-", uid)\<close> with a buffer of 16 bytes.\<close>

fun decimal :: "nat \<Rightarrow> string" where
  "decimal n =
     (if n < 10 then [char_of (48 + n)]
      else decimal (n div 10) @ [char_of (48 + n mod 10)])"

declare decimal.simps [simp del]

definition snprintf_u_dash :: "nat \<Rightarrow> u32 \<Rightarrow> string" where
  "snprintf_u_dash bufsize v = take (bufsize - 1) (decimal (unat v) @ ''-'')"


subsection \<open>bus.c\<close>

definition kdbus_bus_ref :: "kdbus_state \<Rightarrow> ref \<Rightarrow> kdbus_state" where
  "kdbus_bus_ref s b =
     (case buses s b of None \<Rightarrow> s
      | Some bus \<Rightarrow> s\<lparr>buses := (buses s)(b \<mapsto> bus\<lparr>bus_kref := bus_kref bus + 1\<rparr>)\<rparr>)"

text \<open>
  \<^verbatim>\<open>list_del(entry)\<close> of list.h writes \<^verbatim>\<open>entry->next->prev\<close> and
  \<^verbatim>\<open>entry->prev->next\<close>. The list heads \<^verbatim>\<open>bus_entry\<close> and \<^verbatim>\<open>ns_entry\<close> are
  part of objects that \<^verbatim>\<open>kzalloc\<close> cleared, and nothing initialises them before
  \<^verbatim>\<open>list_add_tail\<close> puts the object on its list: for an entry that is on no list both
  pointers are null, and \<^verbatim>\<open>list_del\<close> writes through a null pointer.
\<close>

definition list_del :: "ref \<Rightarrow> ref list \<Rightarrow> ref list outcome" where
  "list_del entry xs = (if entry \<in> set xs then Return (remove1 entry xs) else Fault)"

text \<open>
  Modelled from the spec: \<^verbatim>\<open>kdbus_ep_disconnect\<close> and \<^verbatim>\<open>kdbus_ep_unref\<close> are in
  ep.c, which is not among the sources. The model records the two calls for every
  endpoint on the bus's list; disconnecting an endpoint unlinks it from that list.
\<close>

definition kdbus_bus_disconnect :: "kdbus_state \<Rightarrow> ref \<Rightarrow> kdbus_state outcome" where
  "kdbus_bus_disconnect s b =
     (case buses s b of None \<Rightarrow> Fault
      | Some bus \<Rightarrow>
        if bus_disconnected bus then Return s
        else
          (case nss s (bus_ns bus) of None \<Rightarrow> Fault
           | Some ns \<Rightarrow>
             (case list_del b (bus_list ns) of Fault \<Rightarrow> Fault
              | Return l \<Rightarrow>
                Return (s\<lparr>buses := (buses s)(b \<mapsto> bus\<lparr>bus_disconnected := True, ep_list := []\<rparr>),
                          nss := (nss s)(bus_ns bus \<mapsto> ns\<lparr>bus_list := l\<rparr>),
                          calls := calls s @
                            concat (map (\<lambda>ep. [Kdbus_ep_disconnect ep, Kdbus_ep_unref ep])
                                      (ep_list bus))\<rparr>))))"

definition kdbus_bus_free :: "kdbus_state \<Rightarrow> ref \<Rightarrow> kdbus_state outcome" where
  "kdbus_bus_free s b =
     (case buses s b of None \<Rightarrow> Fault
      | Some bus \<Rightarrow>
        (case kdbus_bus_disconnect (call (Kdbus_name_registry_unref (name_registry bus)) s) b of
           Fault \<Rightarrow> Fault
         | Return s2 \<Rightarrow> Return (s2\<lparr>buses := (buses s2)(b := None)\<rparr>)))"

text \<open>\<^verbatim>\<open>kref_put\<close>: the count goes down by one, and the object is freed when it reaches 0.\<close>

definition kdbus_bus_unref :: "kdbus_state \<Rightarrow> ref \<Rightarrow> kdbus_state outcome" where
  "kdbus_bus_unref s b =
     (case buses s b of None \<Rightarrow> Fault
      | Some bus \<Rightarrow>
        if bus_kref bus - 1 = 0 then kdbus_bus_free s b
        else Return (s\<lparr>buses := (buses s)(b \<mapsto> bus\<lparr>bus_kref := bus_kref bus - 1\<rparr>)\<rparr>))"

definition kdbus_bus_find_conn_by_id :: "kdbus_state \<Rightarrow> ref \<Rightarrow> u64 \<Rightarrow> ref option" where
  "kdbus_bus_find_conn_by_id s b ident =
     (case buses s b of None \<Rightarrow> None | Some bus \<Rightarrow> map_of (conn_hash bus) ident)"

fun bus_list_find :: "kdbus_state \<Rightarrow> ref list \<Rightarrow> string \<Rightarrow> ref option outcome" where
  "bus_list_find s [] nm = Return None"
| "bus_list_find s (b # bs) nm =
     (case buses s b of None \<Rightarrow> Fault
      | Some bus \<Rightarrow>
        (case strcmp_ptr (bus_name bus) (Some nm) of
           Fault \<Rightarrow> Fault
         | Return c \<Rightarrow> if c \<noteq> 0 then bus_list_find s bs nm else Return (Some b)))"

definition kdbus_bus_find :: "kdbus_state \<Rightarrow> ref \<Rightarrow> string \<Rightarrow> (ref option \<times> kdbus_state) outcome" where
  "kdbus_bus_find s ns nm =
     (case nss s ns of None \<Rightarrow> Fault
      | Some n \<Rightarrow>
        (case bus_list_find s (bus_list n) nm of
           Fault \<Rightarrow> Fault
         | Return None \<Rightarrow> Return (None, s)
         | Return (Some b) \<Rightarrow> Return (Some b, kdbus_bus_ref s b)))"

text \<open>
  What \<^verbatim>\<open>kdbus_bus_new\<close> reads through \<^verbatim>\<open>bus_kmake\<close>: the C string at
  \<^verbatim>\<open>bus_kmake->name\<close>, the cgroup id, and the flags and bloom size of the command.
\<close>

record bus_kmake =
  kmake_name :: string
  kmake_cgroup_id :: u64
  kmake_flags :: u64
  kmake_bloom_size :: u64

text \<open>
  What the environment decides in a call of \<^verbatim>\<open>kdbus_bus_new\<close>: the number
  \<^verbatim>\<open>from_kuid(current_user_ns(), uid)\<close> of the creator in the caller's user
  namespace, the outcome of the three allocations (with the address of the new object),
  and the return value of \<^verbatim>\<open>kdbus_ep_new\<close> with the address of the endpoint it made.

  Modelled from the spec: \<^verbatim>\<open>kdbus_ep_new\<close> (ep.c) and
  \<^verbatim>\<open>kdbus_name_registry_new\<close> (names.c) are not among the sources. A successful
  \<^verbatim>\<open>kdbus_ep_new\<close> attaches the new endpoint to the bus's endpoint list.
\<close>

record bus_new_env =
  from_kuid :: "kuid_t \<Rightarrow> u32"
  kzalloc_bus :: "ref option"
  kstrdup_name :: bool
  kdbus_name_registry_new :: "ref option"
  kdbus_ep_new_ret :: int
  kdbus_ep_new_ep :: ref

definition KDBUS_POLICY_OPEN :: u64 where
  "KDBUS_POLICY_OPEN = 1"

text \<open>
  The exits of \<^verbatim>\<open>kdbus_bus_new\<close> that release a bus and return an error: the label
  \<^verbatim>\<open>ret\<close>, and the bus found under the name asked for.
\<close>

definition bus_new_fail ::
  "int \<Rightarrow> kdbus_state \<Rightarrow> ref \<Rightarrow> (int \<times> ref option \<times> kdbus_state) outcome"
where
  "bus_new_fail ret s b =
     (case kdbus_bus_unref s b of Fault \<Rightarrow> Fault | Return s' \<Rightarrow> Return (ret, None, s'))"

definition kdbus_bus_new ::
  "bus_new_env \<Rightarrow> kdbus_state \<Rightarrow> ref \<Rightarrow> bus_kmake \<Rightarrow> umode_t \<Rightarrow> kuid_t \<Rightarrow> kgid_t \<Rightarrow>
     (int \<times> ref option \<times> kdbus_state) outcome"
where
  "kdbus_bus_new env s ns bus_kmake mode uid gid =
     (let prefix = snprintf_u_dash 16 (from_kuid env uid) in
      if strncmp (kmake_name bus_kmake) prefix (if length prefix \<noteq> 0 then 1 else 0) \<noteq> 0
      then Return (- EPERM, None, s)
      else case kdbus_bus_find s ns (kmake_name bus_kmake) of
        Fault \<Rightarrow> Fault
      | Return (Some found, s1) \<Rightarrow> bus_new_fail (- EEXIST) s1 found
      | Return (None, s1) \<Rightarrow>
        (case kzalloc_bus env of
           None \<Rightarrow> Return (- ENOMEM, None, s1)
         | Some b \<Rightarrow>
           let bus = \<lparr>bus_kref = 1, bus_disconnected = False, bus_ns = ns, bus_name = None,
                      bus_id = 0, bus_flags = kmake_flags bus_kmake,
                      bloom_size = kmake_bloom_size bus_kmake,
                      cgroup_id = kmake_cgroup_id bus_kmake, conn_id_next = 1,
                      conn_hash = [], ep_list = [], name_registry = None\<rparr>;
               s2 = s1\<lparr>buses := (buses s1)(b \<mapsto> bus)\<rparr>
           in if \<not> kstrdup_name env then bus_new_fail (- ENOMEM) s2 b
           else
             let bus = bus\<lparr>bus_name := Some (kmake_name bus_kmake)\<rparr>;
                 s3 = s2\<lparr>buses := (buses s2)(b \<mapsto> bus)\<rparr>
             in case kdbus_name_registry_new env of
               None \<Rightarrow> bus_new_fail (- ENOMEM) s3 b
             | Some registry \<Rightarrow>
               let bus = bus\<lparr>name_registry := Some registry\<rparr>;
                   s4 = call (Kdbus_ep_new b ''bus'' mode uid gid (bus_flags bus AND KDBUS_POLICY_OPEN))
                          (s3\<lparr>buses := (buses s3)(b \<mapsto> bus)\<rparr>)
               in if kdbus_ep_new_ret env < 0
                  then bus_new_fail (kdbus_ep_new_ret env) s4 b
                  else
                    (case nss s4 ns of
                       None \<Rightarrow> Fault
                     | Some n \<Rightarrow>
                       let bus = bus\<lparr>ep_list := [kdbus_ep_new_ep env], bus_id := bus_id_next n\<rparr>;
                           n' = n\<lparr>bus_id_next := bus_id_next n + 1,
                                  bus_list := bus_list n @ [b]\<rparr>
                       in Return (0, Some b,
                            s4\<lparr>buses := (buses s4)(b \<mapsto> bus), nss := (nss s4)(ns \<mapsto> n')\<rparr>))))"


subsection \<open>ns.c\<close>

text \<open>
  \<^verbatim>\<open>KDBUS_CHAR_MAJOR\<close>, the static major of the initial namespace, is declared in a
  header that is not among the sources.
\<close>

definition KDBUS_CHAR_MAJOR :: int where
  "KDBUS_CHAR_MAJOR = 222"

definition kdbus_ns_ref :: "kdbus_state \<Rightarrow> ref \<Rightarrow> kdbus_state" where
  "kdbus_ns_ref s n =
     (case nss s n of None \<Rightarrow> s
      | Some ns \<Rightarrow> s\<lparr>nss := (nss s)(n \<mapsto> ns\<lparr>ns_kref := ns_kref ns + 1\<rparr>)\<rparr>)"

definition kdbus_ns_disconnect :: "kdbus_state \<Rightarrow> ref \<Rightarrow> kdbus_state outcome" where
  "kdbus_ns_disconnect s n =
     (case nss s n of None \<Rightarrow> Fault
      | Some ns \<Rightarrow>
        if ns_disconnected ns then Return s
        else
          (case list_del n (namespace_list s) of Fault \<Rightarrow> Fault
           | Return l \<Rightarrow>
             let s1 = s\<lparr>namespace_list := l\<rparr>;
                 s2 = (case dev ns of None \<Rightarrow> s1 | Some d \<Rightarrow> call (Device_unregister d) s1);
                 s3 = (if major ns > 0
                       then call (Unregister_chrdev (major ns))
                              (s2\<lparr>kdbus_ns_major_idr := (kdbus_ns_major_idr s2)(major ns := None)\<rparr>)
                       else s2)
             in Return (s3\<lparr>nss := (nss s3)(n \<mapsto>
                          ns\<lparr>ns_disconnected := True, dev := None,
                             major := (if major ns > 0 then 0 else major ns)\<rparr>)\<rparr>)))"

definition kdbus_ns_free :: "kdbus_state \<Rightarrow> ref \<Rightarrow> kdbus_state outcome" where
  "kdbus_ns_free s n =
     (case kdbus_ns_disconnect s n of
        Fault \<Rightarrow> Fault
      | Return s1 \<Rightarrow> Return (s1\<lparr>nss := (nss s1)(n := None)\<rparr>))"

definition kdbus_ns_unref :: "kdbus_state \<Rightarrow> ref \<Rightarrow> kdbus_state outcome" where
  "kdbus_ns_unref s n =
     (case nss s n of None \<Rightarrow> Fault
      | Some ns \<Rightarrow>
        if ns_kref ns - 1 = 0 then kdbus_ns_free s n
        else Return (s\<lparr>nss := (nss s)(n \<mapsto> ns\<lparr>ns_kref := ns_kref ns - 1\<rparr>)\<rparr>))"

fun ns_list_find ::
  "kdbus_state \<Rightarrow> ref list \<Rightarrow> ref option \<Rightarrow> string option \<Rightarrow> ref option outcome"
where
  "ns_list_find s [] parent nm = Return None"
| "ns_list_find s (n # ns) parent nm =
     (case nss s n of None \<Rightarrow> Fault
      | Some x \<Rightarrow>
        if ns_parent x \<noteq> parent then ns_list_find s ns parent nm
        else
          (case strcmp_ptr (ns_name x) nm of
             Fault \<Rightarrow> Fault
           | Return c \<Rightarrow> if c \<noteq> 0 then ns_list_find s ns parent nm else Return (Some n)))"

definition kdbus_ns_find ::
  "kdbus_state \<Rightarrow> ref option \<Rightarrow> string option \<Rightarrow> (ref option \<times> kdbus_state) outcome"
where
  "kdbus_ns_find s parent nm =
     (case ns_list_find s (namespace_list s) parent nm of
        Fault \<Rightarrow> Fault
      | Return None \<Rightarrow> Return (None, s)
      | Return (Some n) \<Rightarrow> Return (Some n, kdbus_ns_ref s n))"

text \<open>
  What the environment decides in a call of \<^verbatim>\<open>kdbus_ns_new\<close>, in the order of
  the calls: \<^verbatim>\<open>kzalloc\<close> of the namespace, \<^verbatim>\<open>kstrdup\<close> of the name,
  \<^verbatim>\<open>kstrdup\<close> or \<^verbatim>\<open>kasprintf\<close> of the device path, the return value of
  \<^verbatim>\<open>register_chrdev\<close>, the return value of \<^verbatim>\<open>idr_alloc\<close>, \<^verbatim>\<open>kzalloc\<close> of the
  control device, and the return value of \<^verbatim>\<open>device_register\<close>.
\<close>

record ns_new_env =
  kzalloc_ns :: "ref option"
  kstrdup_ns_name :: bool
  alloc_devpath :: bool
  register_chrdev_ret :: int
  idr_alloc_ret :: int
  kzalloc_dev :: "ref option"
  device_register_ret :: int

text \<open>
  The exits of \<^verbatim>\<open>kdbus_ns_new\<close> that release a namespace and return an error: the
  labels \<^verbatim>\<open>err_unlock\<close> and \<^verbatim>\<open>ret\<close>, where the local variable \<^verbatim>\<open>ret\<close> is
  returned, and the namespace found under the name asked for. \<^verbatim>\<open>ret\<close> is declared
  without an initial value: it is \<open>Indeterminate\<close> until the function assigns to it.
\<close>

definition ns_new_fail ::
  "c_int \<Rightarrow> kdbus_state \<Rightarrow> ref \<Rightarrow> (c_int \<times> ref option \<times> kdbus_state) outcome"
where
  "ns_new_fail ret s n =
     (case kdbus_ns_unref s n of Fault \<Rightarrow> Fault | Return s' \<Rightarrow> Return (ret, None, s'))"

text \<open>\<^verbatim>\<open>%s\<close> in a kernel format string prints a null pointer as \<^verbatim>\<open>(null)\<close>.\<close>

definition format_s :: "string option \<Rightarrow> string" where
  "format_s p = (case p of None \<Rightarrow> ''(null)'' | Some cs \<Rightarrow> cs)"

text \<open>
  The block \<^verbatim>\<open>if (!parent) { ... } else { ... }\<close> that composes the device path
  and registers the major, on the freshly initialised namespace \<open>ns0\<close>: \<open>Inl\<close> is
  \<^verbatim>\<open>goto ret\<close>, \<open>Inr\<close> goes on; both carry the value of \<^verbatim>\<open>ret\<close> and the
  namespace as it then is.
\<close>

definition ns_new_devpath ::
  "ns_new_env \<Rightarrow> kdbus_state \<Rightarrow> ref option \<Rightarrow> string option \<Rightarrow> kdbus_ns \<Rightarrow>
     ((c_int \<times> kdbus_ns) + (c_int \<times> kdbus_ns)) outcome"
where
  "ns_new_devpath env s parent nm ns0 =
     (case parent of
        None \<Rightarrow>
          if \<not> alloc_devpath env then Return (Inl (Value (- ENOMEM), ns0))
          else
            let ns1 = ns0\<lparr>devpath := Some ''kdbus''\<rparr> in
            if register_chrdev_ret env \<noteq> 0
            then Return (Inl (Value (register_chrdev_ret env), ns1))
            else Return (Inr (Value (register_chrdev_ret env), ns1\<lparr>major := KDBUS_CHAR_MAJOR\<rparr>))
      | Some p \<Rightarrow>
          let ns1 = ns0\<lparr>ns_parent := Some p\<rparr> in
          (case nss s p of
             None \<Rightarrow> Fault
           | Some pns \<Rightarrow>
             if \<not> alloc_devpath env then Return (Inl (Value (- ENOMEM), ns1))
             else
               let ns2 = ns1\<lparr>devpath := Some (''kdbus/ns/'' @ format_s (devpath pns) @ ''/''
                                               @ format_s nm),
                          major := register_chrdev_ret env\<rparr>
               in if major ns2 < 0 then Return (Inl (Value (major ns2), ns2))
                  else Return (Inr (Indeterminate, ns2\<lparr>ns_name := nm\<rparr>))))"

text \<open>
  The rest of the function, from \<^verbatim>\<open>mutex_lock(&kdbus_subsys_lock)\<close> on, with the
  value \<open>ret\<close> that the local variable has at that point.
\<close>

definition ns_new_register ::
  "ns_new_env \<Rightarrow> kdbus_state \<Rightarrow> ref \<Rightarrow> c_int \<Rightarrow> kdbus_ns \<Rightarrow>
     (c_int \<times> ref option \<times> kdbus_state) outcome"
where
  "ns_new_register env s n ret ns =
     (if idr_alloc_ret env \<le> 0
      then ns_new_fail (Value (- EEXIST)) (s\<lparr>nss := (nss s)(n \<mapsto> ns)\<rparr>) n
      else
        let ns1 = ns\<lparr>ns_id := kdbus_ns_id_next s\<rparr>;
            s1 = s\<lparr>kdbus_ns_major_idr := (kdbus_ns_major_idr s)(idr_alloc_ret env \<mapsto> n),
                   kdbus_ns_id_next := kdbus_ns_id_next s + 1\<rparr>
        in case kzalloc_dev env of
          None \<Rightarrow> ns_new_fail ret (s1\<lparr>nss := (nss s1)(n \<mapsto> ns1)\<rparr>) n
        | Some d \<Rightarrow>
          if device_register_ret env < 0
          then ns_new_fail (Value (device_register_ret env))
                 (call (Put_device d) (s1\<lparr>nss := (nss s1)(n \<mapsto> ns1)\<rparr>)) n
          else Return (Value 0, Some n,
                 s1\<lparr>nss := (nss s1)(n \<mapsto> ns1\<lparr>dev := Some d\<rparr>),
                    namespace_list := namespace_list s1 @ [n]\<rparr>))"

definition kdbus_ns_new ::
  "ns_new_env \<Rightarrow> kdbus_state \<Rightarrow> ref option \<Rightarrow> string option \<Rightarrow> umode_t \<Rightarrow>
     (c_int \<times> ref option \<times> kdbus_state) outcome"
where
  "kdbus_ns_new env s parent nm mode =
     (if (parent \<noteq> None \<and> nm = None) \<or> (parent = None \<and> nm \<noteq> None)
      then Return (Value (- EINVAL), None, s)
      else case kdbus_ns_find s parent nm of
        Fault \<Rightarrow> Fault
      | Return (Some found, s1) \<Rightarrow> ns_new_fail (Value (- EEXIST)) s1 found
      | Return (None, s1) \<Rightarrow>
        (case kzalloc_ns env of
           None \<Rightarrow> Return (Value (- ENOMEM), None, s1)
         | Some n \<Rightarrow>
           if nm \<noteq> None \<and> \<not> kstrdup_ns_name env then Return (Value (- ENOMEM), None, s1)
           else
             let ns0 = \<lparr>ns_kref = 1, ns_disconnected = False, ns_name = None, ns_parent = None,
                        ns_id = 0, devpath = None, major = 0, dev = None, bus_list = [],
                        bus_id_next = 0\<rparr>
             in case ns_new_devpath env s1 parent nm ns0 of
                  Fault \<Rightarrow> Fault
                | Return (Inl (ret, ns)) \<Rightarrow> ns_new_fail ret (s1\<lparr>nss := (nss s1)(n \<mapsto> ns)\<rparr>) n
                | Return (Inr (ret, ns)) \<Rightarrow> ns_new_register env s1 n ret ns))"


subsection \<open>States to run the functions in\<close>

text \<open>Nothing allocated, and the initial namespace alone.\<close>

definition s_empty :: kdbus_state where
  "s_empty = \<lparr>namespace_list = [], kdbus_ns_id_next = 0, kdbus_ns_major_idr = Map.empty,
              nss = Map.empty, buses = Map.empty, calls = []\<rparr>"

definition ns_init :: kdbus_ns where
  "ns_init = \<lparr>ns_kref = 1, ns_disconnected = False, ns_name = None, ns_parent = None,
              ns_id = 0, devpath = Some ''kdbus'', major = KDBUS_CHAR_MAJOR, dev = Some 2,
              bus_list = [], bus_id_next = 0\<rparr>"

definition s_init :: kdbus_state where
  "s_init = \<lparr>namespace_list = [1], kdbus_ns_id_next = 1,
             kdbus_ns_major_idr = [KDBUS_CHAR_MAJOR \<mapsto> 1],
             nss = [1 \<mapsto> ns_init], buses = Map.empty, calls = []\<rparr>"

definition env_ns_ok :: ns_new_env where
  "env_ns_ok = \<lparr>kzalloc_ns = Some 1, kstrdup_ns_name = True, alloc_devpath = True,
                register_chrdev_ret = 0, idr_alloc_ret = KDBUS_CHAR_MAJOR,
                kzalloc_dev = Some 2, device_register_ret = 0\<rparr>"

definition env_bus_ok :: bus_new_env where
  "env_bus_ok = \<lparr>from_kuid = (\<lambda>uid. uid), kzalloc_bus = Some 3, kstrdup_name = True,
                 kdbus_name_registry_new = Some 4, kdbus_ep_new_ret = 0, kdbus_ep_new_ep = 5\<rparr>"

definition kmake_of :: "string \<Rightarrow> bus_kmake" where
  "kmake_of nm = \<lparr>kmake_name = nm, kmake_cgroup_id = 0, kmake_flags = 0, kmake_bloom_size = 64\<rparr>"


text \<open>The state after the bus \<^verbatim>\<open>1000-test\<close> has been made in the initial namespace.\<close>

definition s_bus :: kdbus_state where
  "s_bus =
     (case kdbus_bus_new env_bus_ok s_init 1 (kmake_of ''1000-test'') 0x180 1000 1000 of
        Return (ret, bus, s') \<Rightarrow> s'
      | Fault \<Rightarrow> s_init)"


section \<open>metadata.c: the metadata object\<close>

text \<open>
  The buffer \<^verbatim>\<open>meta->data\<close> is a memory of bytes addressed by the offset from its
  start (\<open>None\<close> for the null pointer); \<^verbatim>\<open>size_t\<close> is 64 bits wide. The fields
  \<^verbatim>\<open>data\<close> and \<^verbatim>\<open>size\<close> carry the prefix \<open>meta_\<close> here.
\<close>

record kdbus_meta =
  pid_namespace :: ref
  user_namespace :: ref
  meta_data :: "memory option"
  meta_size :: u64
  allocated_size :: u64
  attached :: u64

definition kdbus_meta_ns_eq :: "kdbus_meta \<Rightarrow> kdbus_meta \<Rightarrow> bool" where
  "kdbus_meta_ns_eq meta_a meta_b \<longleftrightarrow>
     pid_namespace meta_a = pid_namespace meta_b \<and> user_namespace meta_a = user_namespace meta_b"

text \<open>
  The allocator: the outcomes of the allocations to come, in order. \<open>None\<close> is a
  refused allocation, \<open>Some g\<close> a granted one whose memory holds \<open>g\<close> (which
  \<^verbatim>\<open>kmalloc\<close> hands out as it is, and \<^verbatim>\<open>kzalloc\<close> and \<^verbatim>\<open>__GFP_ZERO\<close> clear).
  When the list is used up, allocations are refused.
\<close>

type_synonym allocator = "memory option list"

fun alloc :: "allocator \<Rightarrow> memory option \<times> allocator" where
  "alloc [] = (None, [])"
| "alloc (x # xs) = (x, xs)"

type_synonym meta_state = "kdbus_meta \<times> allocator"

definition write_bytes :: "memory \<Rightarrow> addr \<Rightarrow> u8 list \<Rightarrow> memory" where
  "write_bytes mem dst bytes =
     (\<lambda>a. if a - dst < of_nat (length bytes) then bytes ! unat (a - dst) else mem a)"

definition store_u64 :: "memory \<Rightarrow> addr \<Rightarrow> u64 \<Rightarrow> memory" where
  "store_u64 mem dst v = write_bytes mem dst (u64_bytes v)"

text \<open>
  Modelled from the spec: \<^verbatim>\<open>roundup_pow_of_two\<close> is the kernel's (log2.h), not among
  the sources: the least power of two that is not below its operand, computed as
  \<^verbatim>\<open>1UL << fls_long(n - 1)\<close>, where \<^verbatim>\<open>fls_long\<close> is the position of the highest
  bit set.
\<close>

fun fls_long :: "nat \<Rightarrow> nat" where
  "fls_long n = (if n = 0 then 0 else Suc (fls_long (n div 2)))"

declare fls_long.simps [simp del]

definition roundup_pow_of_two :: "u64 \<Rightarrow> u64" where
  "roundup_pow_of_two n = push_bit (fls_long (unat (n - 1))) 1"

text \<open>
  The copy into a grown buffer: \<^verbatim>\<open>memcpy\<close> of the \<open>used\<close> bytes in use and
  \<^verbatim>\<open>memset\<close> to 0 from the old allocated size on; the bytes between keep what
  \<^verbatim>\<open>kmalloc\<close> handed out.
\<close>

definition grown :: "memory \<Rightarrow> memory \<Rightarrow> u64 \<Rightarrow> u64 \<Rightarrow> u64 \<Rightarrow> memory" where
  "grown old got used old_allocated new_allocated =
     (\<lambda>a. if a < used then old a
          else if a < old_allocated then got a
          else if a < new_allocated then 0
          else got a)"

text \<open>
  \<^verbatim>\<open>kdbus_meta_append_item\<close> returns the new item (its offset in the buffer), or
  \<^verbatim>\<open>ERR_PTR(-ENOMEM)\<close>.
\<close>

definition kdbus_meta_append_item ::
  "meta_state \<Rightarrow> u64 \<Rightarrow> u64 \<Rightarrow> (int + addr) \<times> meta_state"
where
  "kdbus_meta_append_item st item_type payload_size =
     (let meta = fst st; al = snd st;
          extra_size = KDBUS_ITEM_SIZE payload_size
      in
      case (case meta_data meta of
              None \<Rightarrow>
                (case alloc al of
                   (None, al') \<Rightarrow> Inl al'
                 | (Some got, al') \<Rightarrow>
                     Inr ((\<lambda>_. 0) :: memory,
                          meta\<lparr>meta_data := Some (\<lambda>_. 0),
                               allocated_size := roundup_pow_of_two (256 + extra_size)\<rparr>, al'))
            | Some buf \<Rightarrow> Inr (buf, meta, al)) of
        Inl al' \<Rightarrow> (Inl (- ENOMEM), (meta, al'))
      | Inr (buf, meta, al) \<Rightarrow>
        (case (if meta_size meta + extra_size > allocated_size meta
               then (case alloc al of
                       (None, al') \<Rightarrow> Inl al'
                     | (Some got, al') \<Rightarrow>
                         let new_size = roundup_pow_of_two (meta_size meta + extra_size);
                             buf' = grown buf got (meta_size meta) (allocated_size meta) new_size
                         in Inr (buf', meta\<lparr>meta_data := Some buf', allocated_size := new_size\<rparr>, al'))
               else Inr (buf, meta, al)) of
           Inl al' \<Rightarrow> (Inl (- ENOMEM), (meta, al'))
         | Inr (buf, meta, al) \<Rightarrow>
             let item = meta_size meta;
                 buf' = store_u64 (store_u64 buf (item + 8) item_type) item
                          (KDBUS_ITEM_HEADER_SIZE + payload_size)
             in (Inr item,
                 (meta\<lparr>meta_data := Some buf', meta_size := meta_size meta + extra_size\<rparr>, al))))"

text \<open>
  \<^verbatim>\<open>kdbus_meta_append_data\<close>: \<open>data\<close> is \<open>None\<close> for the null pointer, else the
  bytes at the pointer, of which \<open>len\<close> are copied behind the item header.
\<close>

definition set_data :: "kdbus_meta \<Rightarrow> addr \<Rightarrow> u8 list \<Rightarrow> kdbus_meta" where
  "set_data meta dst bytes =
     (case meta_data meta of
        None \<Rightarrow> meta
      | Some buf \<Rightarrow> meta\<lparr>meta_data := Some (write_bytes buf dst bytes)\<rparr>)"

definition kdbus_meta_append_data ::
  "meta_state \<Rightarrow> u64 \<Rightarrow> u8 list option \<Rightarrow> u64 \<Rightarrow> int \<times> meta_state"
where
  "kdbus_meta_append_data st item_type data len =
     (if len = 0 then (0, st)
      else case kdbus_meta_append_item st item_type len of
        (Inl err, st') \<Rightarrow> (err, st')
      | (Inr item, (meta, al)) \<Rightarrow>
          (case data of
             None \<Rightarrow> (0, (meta, al))
           | Some bytes \<Rightarrow> (0, (set_data meta (item + 16) (take (unat len) bytes), al))))"

definition c_str :: "string \<Rightarrow> u8 list" where
  "c_str s = map of_char s @ [0]"

definition kdbus_meta_append_str :: "meta_state \<Rightarrow> u64 \<Rightarrow> string \<Rightarrow> int \<times> meta_state" where
  "kdbus_meta_append_str st item_type str =
     kdbus_meta_append_data st item_type (Some (c_str str)) (of_nat (length str) + 1)"

text \<open>
  The item types and the attach flags are declared in kdbus.h, which is not among the
  sources: the item types are taken as consecutive numbers from \<^verbatim>\<open>0x1000\<close>, the
  attach flags as single bits, both in the order in which \<^verbatim>\<open>kdbus_meta_append\<close>
  goes through them.
\<close>

definition KDBUS_ITEM_TIMESTAMP :: u64 where "KDBUS_ITEM_TIMESTAMP = 0x1000"
definition KDBUS_ITEM_CREDS :: u64 where "KDBUS_ITEM_CREDS = 0x1001"
definition KDBUS_ITEM_AUXGROUPS :: u64 where "KDBUS_ITEM_AUXGROUPS = 0x1002"
definition KDBUS_ITEM_NAME :: u64 where "KDBUS_ITEM_NAME = 0x1003"
definition KDBUS_ITEM_TID_COMM :: u64 where "KDBUS_ITEM_TID_COMM = 0x1004"
definition KDBUS_ITEM_PID_COMM :: u64 where "KDBUS_ITEM_PID_COMM = 0x1005"
definition KDBUS_ITEM_EXE :: u64 where "KDBUS_ITEM_EXE = 0x1006"
definition KDBUS_ITEM_CMDLINE :: u64 where "KDBUS_ITEM_CMDLINE = 0x1007"
definition KDBUS_ITEM_CAPS :: u64 where "KDBUS_ITEM_CAPS = 0x1008"
definition KDBUS_ITEM_CGROUP :: u64 where "KDBUS_ITEM_CGROUP = 0x1009"
definition KDBUS_ITEM_AUDIT :: u64 where "KDBUS_ITEM_AUDIT = 0x100a"
definition KDBUS_ITEM_SECLABEL :: u64 where "KDBUS_ITEM_SECLABEL = 0x100b"
definition KDBUS_ITEM_CONN_NAME :: u64 where "KDBUS_ITEM_CONN_NAME = 0x100c"

definition KDBUS_ATTACH_TIMESTAMP :: u64 where "KDBUS_ATTACH_TIMESTAMP = 0x001"
definition KDBUS_ATTACH_CREDS :: u64 where "KDBUS_ATTACH_CREDS = 0x002"
definition KDBUS_ATTACH_AUXGROUPS :: u64 where "KDBUS_ATTACH_AUXGROUPS = 0x004"
definition KDBUS_ATTACH_NAMES :: u64 where "KDBUS_ATTACH_NAMES = 0x008"
definition KDBUS_ATTACH_COMM :: u64 where "KDBUS_ATTACH_COMM = 0x010"
definition KDBUS_ATTACH_EXE :: u64 where "KDBUS_ATTACH_EXE = 0x020"
definition KDBUS_ATTACH_CMDLINE :: u64 where "KDBUS_ATTACH_CMDLINE = 0x040"
definition KDBUS_ATTACH_CAPS :: u64 where "KDBUS_ATTACH_CAPS = 0x080"
definition KDBUS_ATTACH_CGROUP :: u64 where "KDBUS_ATTACH_CGROUP = 0x100"
definition KDBUS_ATTACH_AUDIT :: u64 where "KDBUS_ATTACH_AUDIT = 0x200"
definition KDBUS_ATTACH_SECLABEL :: u64 where "KDBUS_ATTACH_SECLABEL = 0x400"
definition KDBUS_ATTACH_CONN_NAME :: u64 where "KDBUS_ATTACH_CONN_NAME = 0x800"

definition PAGE_SIZE :: u64 where "PAGE_SIZE = 4096"
definition EOPNOTSUPP :: int where "EOPNOTSUPP = 95"

text \<open>
  What \<^verbatim>\<open>kdbus_meta_append\<close> reads of the calling task (\<^verbatim>\<open>current\<close>) and of the
  kernel: the clocks; the credentials, already translated into the caller's
  namespaces; the supplementary groups; the command names; the memory descriptor, if
  any, with the executable's path as \<^verbatim>\<open>d_path\<close> gives it (or its error) and the
  argument area; the capability sets as pairs of 32-bit words; the cgroup path, if it
  fits; the audit ids; what \<^verbatim>\<open>security_secid_to_secctx\<close> returns; and which of the
  three configuration options are set.
\<close>

record mm_struct =
  exe_file :: "(int + string) option"
  arg_start :: u64
  arg_end :: u64
  arg_mem :: "u8 list"

record task_env =
  monotonic_ns :: u64
  realtime_ns :: u64
  cred_uid :: u32
  cred_gid :: u32
  task_pid_vnr :: int
  task_tgid_vnr :: int
  start_time :: u64
  group_info :: "u32 list"
  group_leader_comm :: string
  task_comm :: string
  mm :: "mm_struct option"
  cap_inheritable :: "u32 \<times> u32"
  cap_permitted :: "u32 \<times> u32"
  cap_effective :: "u32 \<times> u32"
  cap_bset :: "u32 \<times> u32"
  cgroup_path :: "string option"
  audit_loginuid :: u32
  audit_sessionid :: u32
  secctx_ret :: int
  secctx_label :: "u8 list option"
  CONFIG_CGROUPS :: bool
  CONFIG_AUDITSYSCALL :: bool
  CONFIG_SECURITY :: bool

text \<open>
  The fields of \<^verbatim>\<open>struct kdbus_conn\<close> that metadata.c reads: the connection's name
  (a null pointer when it has none) and its list of names, each with its flags.
\<close>

record kdbus_conn =
  conn_name :: "string option"
  names_list :: "(u64 \<times> string) list"

definition u32_bytes :: "u32 \<Rightarrow> u8 list" where
  "u32_bytes v = [ucast v, ucast (drop_bit 8 v), ucast (drop_bit 16 v), ucast (drop_bit 24 v)]"

subsection \<open>The records\<close>

text \<open>
  Each of the following takes the metadata object with the allocator and returns the C
  \<^verbatim>\<open>int\<close> with both as they then are. \<^verbatim>\<open>struct kdbus_timestamp\<close> is three
  \<^verbatim>\<open>u64\<close> (sequence number, monotonic and realtime clock), \<^verbatim>\<open>struct kdbus_creds\<close>
  five, \<^verbatim>\<open>struct kdbus_audit\<close> two, and \<^verbatim>\<open>struct kdbus_name\<close> is a \<^verbatim>\<open>u64\<close> of
  flags before the name.
\<close>

definition kdbus_meta_append_timestamp :: "task_env \<Rightarrow> meta_state \<Rightarrow> u64 \<Rightarrow> int \<times> meta_state" where
  "kdbus_meta_append_timestamp env st seq =
     (case kdbus_meta_append_item st KDBUS_ITEM_TIMESTAMP 24 of
        (Inl err, st') \<Rightarrow> (err, st')
      | (Inr item, (meta, al)) \<Rightarrow>
          let meta1 = (if seq > 0 then set_data meta (item + 16) (u64_bytes seq) else meta);
              meta2 = set_data meta1 (item + 24) (u64_bytes (monotonic_ns env));
              meta3 = set_data meta2 (item + 32) (u64_bytes (realtime_ns env))
          in (0, (meta3, al)))"

definition kdbus_meta_append_cred :: "task_env \<Rightarrow> meta_state \<Rightarrow> int \<times> meta_state" where
  "kdbus_meta_append_cred env st =
     kdbus_meta_append_data st KDBUS_ITEM_CREDS
       (Some (u64_bytes (ucast (cred_uid env)) @ u64_bytes (ucast (cred_gid env))
              @ u64_bytes (word_of_int (task_pid_vnr env))
              @ u64_bytes (word_of_int (task_tgid_vnr env))
              @ u64_bytes (start_time env)))
       40"

definition kdbus_meta_append_auxgroups :: "task_env \<Rightarrow> meta_state \<Rightarrow> int \<times> meta_state" where
  "kdbus_meta_append_auxgroups env st =
     (case kdbus_meta_append_item st KDBUS_ITEM_AUXGROUPS (of_nat (length (group_info env)) * 8) of
        (Inl err, st') \<Rightarrow> (err, st')
      | (Inr item, (meta, al)) \<Rightarrow>
          (0, (set_data meta (item + 16)
                 (concat (map (\<lambda>gid. u64_bytes (ucast gid)) (group_info env))), al)))"

fun append_names :: "meta_state \<Rightarrow> (u64 \<times> string) list \<Rightarrow> int \<times> meta_state" where
  "append_names st [] = (0, st)"
| "append_names st ((flags, nm) # es) =
     (case kdbus_meta_append_item st KDBUS_ITEM_NAME (8 + (of_nat (length nm) + 1)) of
        (Inl err, st') \<Rightarrow> (err, st')
      | (Inr item, (meta, al)) \<Rightarrow>
          append_names
            (set_data (set_data meta (item + 16) (u64_bytes flags)) (item + 24) (c_str nm), al) es)"

definition kdbus_meta_append_src_names :: "meta_state \<Rightarrow> kdbus_conn option \<Rightarrow> int \<times> meta_state" where
  "kdbus_meta_append_src_names st conn =
     (case conn of None \<Rightarrow> (0, st) | Some c \<Rightarrow> append_names st (names_list c))"

text \<open>
  The block for \<^verbatim>\<open>KDBUS_ATTACH_COMM\<close>: two strings, each read with
  \<^verbatim>\<open>get_task_comm\<close> into a buffer of \<^verbatim>\<open>TASK_COMM_LEN\<close> (16) bytes.
\<close>

definition kdbus_meta_append_comm :: "task_env \<Rightarrow> meta_state \<Rightarrow> int \<times> meta_state" where
  "kdbus_meta_append_comm env st =
     (case kdbus_meta_append_str st KDBUS_ITEM_TID_COMM (take 15 (group_leader_comm env)) of
        (ret, st') \<Rightarrow>
          if ret < 0 then (ret, st')
          else kdbus_meta_append_str st' KDBUS_ITEM_PID_COMM (take 15 (task_comm env)))"

definition kdbus_meta_append_exe :: "task_env \<Rightarrow> meta_state \<Rightarrow> int \<times> meta_state" where
  "kdbus_meta_append_exe env st =
     (case mm env of
        None \<Rightarrow> (- EFAULT, st)
      | Some m \<Rightarrow>
        (case exe_file m of
           None \<Rightarrow> (0, st)
         | Some path \<Rightarrow>
           (case alloc (snd st) of
              (None, al') \<Rightarrow> (- ENOMEM, (fst st, al'))
            | (Some page, al') \<Rightarrow>
              (case path of
                 Inl err \<Rightarrow> (err, (fst st, al'))
               | Inr pathname \<Rightarrow>
                   kdbus_meta_append_data (fst st, al') KDBUS_ITEM_EXE (Some (c_str pathname))
                     (of_nat (length pathname) + 1)))))"

text \<open>
  \<^verbatim>\<open>copy_from_user\<close> returns the number of bytes it could not copy, which is never
  negative: the test \<^verbatim>\<open>ret < 0\<close> after it never holds, and the page, zeroed at
  allocation, is appended with whatever was copied.
\<close>

definition kdbus_meta_append_cmdline :: "task_env \<Rightarrow> meta_state \<Rightarrow> int \<times> meta_state" where
  "kdbus_meta_append_cmdline env st =
     (case alloc (snd st) of
        (None, al') \<Rightarrow> (- ENOMEM, (fst st, al'))
      | (Some page, al') \<Rightarrow>
        (case mm env of
           None \<Rightarrow> (- EFAULT, (fst st, al'))
         | Some m \<Rightarrow>
           if arg_end m = 0 then (0, (fst st, al'))
           else
             let len0 = arg_end m - arg_start m;
                 len = (if len0 > PAGE_SIZE then PAGE_SIZE else len0);
                 tmp = take (unat len) (arg_mem m) @ replicate (unat len - length (arg_mem m)) 0
             in kdbus_meta_append_data (fst st, al') KDBUS_ITEM_CMDLINE (Some tmp) len))"

text \<open>
  \<^verbatim>\<open>CAP_LAST_CAP\<close> is the kernel's (capability.h), not among the sources. The word
  with index \<^verbatim>\<open>CAP_TO_INDEX(CAP_LAST_CAP)\<close> of each set is masked with
  \<^verbatim>\<open>CAP_TO_MASK(CAP_LAST_CAP + 1) - 1\<close>.
\<close>

definition CAP_LAST_CAP :: nat where "CAP_LAST_CAP = 36"

definition clear_unused :: "u32 \<times> u32 \<Rightarrow> u32 \<times> u32" where
  "clear_unused c =
     (let msk = push_bit ((CAP_LAST_CAP + 1) mod 32) 1 - 1 in
      if CAP_LAST_CAP div 32 = 0 then (fst c AND msk, snd c) else (fst c, snd c AND msk))"

definition cap_bytes :: "u32 \<times> u32 \<Rightarrow> u8 list" where
  "cap_bytes c = u32_bytes (fst (clear_unused c)) @ u32_bytes (snd (clear_unused c))"

definition kdbus_meta_append_caps :: "task_env \<Rightarrow> meta_state \<Rightarrow> int \<times> meta_state" where
  "kdbus_meta_append_caps env st =
     kdbus_meta_append_data st KDBUS_ITEM_CAPS
       (Some (cap_bytes (cap_inheritable env) @ cap_bytes (cap_permitted env)
              @ cap_bytes (cap_effective env) @ cap_bytes (cap_bset env)))
       32"

definition kdbus_meta_append_cgroup :: "task_env \<Rightarrow> meta_state \<Rightarrow> int \<times> meta_state" where
  "kdbus_meta_append_cgroup env st =
     (case alloc (snd st) of
        (None, al') \<Rightarrow> (- ENOMEM, (fst st, al'))
      | (Some page, al') \<Rightarrow>
        (case cgroup_path env of
           None \<Rightarrow> (- ENAMETOOLONG, (fst st, al'))
         | Some path \<Rightarrow> kdbus_meta_append_str (fst st, al') KDBUS_ITEM_CGROUP path))"

definition kdbus_meta_append_audit :: "task_env \<Rightarrow> meta_state \<Rightarrow> int \<times> meta_state" where
  "kdbus_meta_append_audit env st =
     kdbus_meta_append_data st KDBUS_ITEM_AUDIT
       (Some (u64_bytes (ucast (audit_loginuid env)) @ u64_bytes (ucast (audit_sessionid env))))
       16"

definition kdbus_meta_append_seclabel :: "task_env \<Rightarrow> meta_state \<Rightarrow> int \<times> meta_state" where
  "kdbus_meta_append_seclabel env st =
     (if secctx_ret env = - EOPNOTSUPP then (0, st)
      else if secctx_ret env < 0 then (secctx_ret env, st)
      else case secctx_label env of
        None \<Rightarrow> (secctx_ret env, st)
      | Some label \<Rightarrow>
          if length label > 0
          then kdbus_meta_append_data st KDBUS_ITEM_SECLABEL (Some label) (of_nat (length label))
          else (secctx_ret env, st))"

subsection \<open>\<^verbatim>\<open>kdbus_meta_append\<close>\<close>

text \<open>
  The body of \<^verbatim>\<open>kdbus_meta_append\<close> is a row of blocks
  \<^verbatim>\<open>if (cond) { ret = f(meta); if (ret < 0) return ret; }\<close>. \<open>run_appends\<close> runs
  such a row: it returns the negative \<^verbatim>\<open>ret\<close> of the first block that fails, or 0
  after the last.
\<close>

fun run_appends :: "(bool \<times> (meta_state \<Rightarrow> int \<times> meta_state)) list \<Rightarrow> meta_state \<Rightarrow> int \<times> meta_state" where
  "run_appends [] st = (0, st)"
| "run_appends ((cond, f) # blocks) st =
     (if cond
      then (case f st of (ret, st') \<Rightarrow> if ret < 0 then (ret, st') else run_appends blocks st')
      else run_appends blocks st)"

definition append_blocks ::
  "task_env \<Rightarrow> kdbus_conn option \<Rightarrow> u64 \<Rightarrow> u64 \<Rightarrow> (bool \<times> (meta_state \<Rightarrow> int \<times> meta_state)) list"
where
  "append_blocks env conn seq msk =
     [(msk AND KDBUS_ATTACH_TIMESTAMP \<noteq> 0, \<lambda>st. kdbus_meta_append_timestamp env st seq),
      (msk AND KDBUS_ATTACH_CREDS \<noteq> 0, kdbus_meta_append_cred env),
      (msk AND KDBUS_ATTACH_AUXGROUPS \<noteq> 0, kdbus_meta_append_auxgroups env),
      (msk AND KDBUS_ATTACH_NAMES \<noteq> 0 \<and> conn \<noteq> None, \<lambda>st. kdbus_meta_append_src_names st conn),
      (msk AND KDBUS_ATTACH_COMM \<noteq> 0, kdbus_meta_append_comm env),
      (msk AND KDBUS_ATTACH_EXE \<noteq> 0, kdbus_meta_append_exe env),
      (msk AND KDBUS_ATTACH_CMDLINE \<noteq> 0, kdbus_meta_append_cmdline env),
      (msk AND KDBUS_ATTACH_CAPS \<noteq> 0, kdbus_meta_append_caps env),
      (CONFIG_CGROUPS env \<and> msk AND KDBUS_ATTACH_CGROUP \<noteq> 0, kdbus_meta_append_cgroup env),
      (CONFIG_AUDITSYSCALL env \<and> msk AND KDBUS_ATTACH_AUDIT \<noteq> 0, kdbus_meta_append_audit env),
      (CONFIG_SECURITY env \<and> msk AND KDBUS_ATTACH_SECLABEL \<noteq> 0, kdbus_meta_append_seclabel env),
      (msk AND KDBUS_ATTACH_CONN_NAME \<noteq> 0 \<and> conn \<noteq> None
         \<and> (case conn of None \<Rightarrow> False | Some c \<Rightarrow> conn_name c \<noteq> None),
       \<lambda>st. kdbus_meta_append_str st KDBUS_ITEM_CONN_NAME
               (case conn of None \<Rightarrow> [] | Some c \<Rightarrow> (case conn_name c of None \<Rightarrow> [] | Some nm \<Rightarrow> nm)))]"

definition kdbus_meta_append ::
  "task_env \<Rightarrow> meta_state \<Rightarrow> kdbus_conn option \<Rightarrow> u64 \<Rightarrow> u64 \<Rightarrow> int \<times> meta_state"
where
  "kdbus_meta_append env st conn seq which =
     (let msk = which AND NOT (attached (fst st)) in
      if msk = 0 then (0, st)
      else case run_appends (append_blocks env conn seq msk) st of
        (ret, (meta, al)) \<Rightarrow>
          if ret < 0 then (ret, (meta, al))
          else (0, (meta\<lparr>attached := attached meta OR msk\<rparr>, al)))"

text \<open>
  What a reader of the buffer finds between two offsets: the items in order, each with
  its type and declared size, every item starting on an 8-byte boundary and declaring at
  least the 16 bytes of its header, the next item starting at the declared size rounded
  up to 8 bytes; \<open>None\<close> when the bytes are not such a row of items ending exactly
  at the end offset.
\<close>

function parse_items :: "memory \<Rightarrow> nat \<Rightarrow> nat \<Rightarrow> (u64 \<times> u64) list option" where
  "parse_items mem off end_off =
     (if off = end_off then Some []
      else if end_off < off then None
      else
        let item_size = load_u64 mem (of_nat off);
            item_type = load_u64 mem (of_nat off + 8)
        in if item_size < 16 \<or> off mod 8 \<noteq> 0 then None
           else map_option ((#) (item_type, item_size))
                  (parse_items mem (off + (unat item_size + 7) div 8 * 8) end_off))"
  by pat_completeness auto
termination
  by (relation "measure (\<lambda>(mem, off, end_off). end_off - off)")
    (auto simp: word_less_nat_alt not_less)

declare parse_items.simps [simp del]

text \<open>
  The invariant of the metadata object: the bytes in use do not exceed the allocated
  size, their number is a multiple of 8, and they are a row of items.
\<close>

definition meta_items :: "kdbus_meta \<Rightarrow> (u64 \<times> u64) list option" where
  "meta_items meta =
     (case meta_data meta of
        None \<Rightarrow> (if meta_size meta = 0 then Some [] else None)
      | Some buf \<Rightarrow> parse_items buf 0 (unat (meta_size meta)))"

definition meta_inv :: "kdbus_meta \<Rightarrow> bool" where
  "meta_inv meta \<longleftrightarrow>
     meta_size meta \<le> allocated_size meta \<and> meta_size meta AND 7 = 0 \<and> meta_items meta \<noteq> None"



text \<open>
  Room for \<open>n\<close> more bytes: the bytes in use, \<open>n\<close> more and the 256 bytes that the
  first allocation adds stay within \<open>2\<^sup>6\<^sup>3\<close>, so that no size computed by
  \<^verbatim>\<open>kdbus_meta_append_item\<close> wraps and \<^verbatim>\<open>roundup_pow_of_two\<close> is defined.
\<close>

definition room :: "kdbus_meta \<Rightarrow> nat \<Rightarrow> bool" where
  "room meta n \<longleftrightarrow> unat (meta_size meta) + n + 256 \<le> 2 ^ 63"

text \<open>
  \<open>extends n st st'\<close>: when the object of \<open>st\<close> satisfies the invariant and has room
  for \<open>n\<close> bytes and \<open>k\<close> more, the object of \<open>st'\<close> satisfies the invariant, has
  room for \<open>k\<close> bytes, and its items are those of \<open>st\<close> followed by new ones.
  \<open>item_open\<close>: the item at \<open>item\<close> with the payload size \<open>p\<close> is the last of the
  buffer, behind the items \<open>xs\<close>.
\<close>

definition extends :: "nat \<Rightarrow> meta_state \<Rightarrow> meta_state \<Rightarrow> bool" where
  "extends n st st' \<longleftrightarrow>
     (\<forall>k xs. meta_inv (fst st) \<and> meta_items (fst st) = Some xs \<and> room (fst st) (n + k) \<longrightarrow>
        meta_inv (fst st') \<and> room (fst st') k \<and> (\<exists>ys. meta_items (fst st') = Some (xs @ ys)))"

definition item_open :: "kdbus_meta \<Rightarrow> (u64 \<times> u64) list \<Rightarrow> u64 \<Rightarrow> u64 \<Rightarrow> addr \<Rightarrow> nat \<Rightarrow> bool" where
  "item_open meta xs ty p item k \<longleftrightarrow>
     meta_inv meta \<and> meta_items meta = Some (xs @ [(ty, 16 + p)]) \<and> room meta k
     \<and> unat (meta_size meta) = unat item + (unat p + 23) div 8 * 8
     \<and> unat item + unat p + 16 < 2 ^ 64"

text \<open>
  An upper bound for the bytes that each block of \<^verbatim>\<open>kdbus_meta_append\<close> appends, in
  the order of the blocks: for every item its payload, the 16 bytes of its header and up
  to 7 bytes of padding.
\<close>

definition append_costs :: "task_env \<Rightarrow> kdbus_conn option \<Rightarrow> nat list" where
  "append_costs env conn =
     [47, 63, 8 * length (group_info env) + 23,
      (case conn of None \<Rightarrow> 0
       | Some c \<Rightarrow> sum_list (map (\<lambda>e. length (snd e) + 32) (names_list c))),
      78,
      (case mm env of None \<Rightarrow> 0
       | Some m \<Rightarrow> (case exe_file m of Some (Inr pathname) \<Rightarrow> length pathname + 24 | _ \<Rightarrow> 0)),
      4119, 55,
      (case cgroup_path env of None \<Rightarrow> 0 | Some path \<Rightarrow> length path + 24),
      39,
      (case secctx_label env of None \<Rightarrow> 0 | Some label \<Rightarrow> length label + 23),
      length (case conn of None \<Rightarrow> []
              | Some c \<Rightarrow> (case conn_name c of None \<Rightarrow> [] | Some nm \<Rightarrow> nm)) + 24]"

definition append_cost :: "task_env \<Rightarrow> kdbus_conn option \<Rightarrow> nat" where
  "append_cost env conn = sum_list (append_costs env conn)"

text \<open>A block that leaves \<^verbatim>\<open>meta->attached\<close> as it is.\<close>

definition keeps_attached :: "(meta_state \<Rightarrow> int \<times> meta_state) \<Rightarrow> bool" where
  "keeps_attached f \<longleftrightarrow> (\<forall>st. attached (fst (snd (f st))) = attached (fst st))"

text \<open>A task, a connection, an empty metadata object and an allocator to run the functions with.\<close>

definition env0 :: task_env where
  "env0 = \<lparr>monotonic_ns = 1000, realtime_ns = 2000, cred_uid = 1000, cred_gid = 1000,
     task_pid_vnr = 42, task_tgid_vnr = 42, start_time = 7, group_info = [4, 24],
     group_leader_comm = ''bash'', task_comm = ''bash'',
     mm = Some \<lparr>exe_file = Some (Inr ''/bin/bash''), arg_start = 0x7ffc00000000,
                arg_end = 0x7ffc00000005, arg_mem = [0x62, 0x61, 0x73, 0x68, 0]\<rparr>,
     cap_inheritable = (0, 0), cap_permitted = (0, 0), cap_effective = (0, 0),
     cap_bset = (0xffffffff, 0xffffffff), cgroup_path = Some ''/'',
     audit_loginuid = 1000, audit_sessionid = 1, secctx_ret = - EOPNOTSUPP, secctx_label = None,
     CONFIG_CGROUPS = True, CONFIG_AUDITSYSCALL = True, CONFIG_SECURITY = True\<rparr>"


definition conn0 :: kdbus_conn where
  "conn0 = \<lparr>conn_name = Some ''monitor'',
             names_list = [(0, ''org.example.A''), (1, ''org.example.B'')]\<rparr>"

definition meta0 :: kdbus_meta where
  "meta0 = \<lparr>pid_namespace = 1, user_namespace = 2, meta_data = None, meta_size = 0,
            allocated_size = 0, attached = 0\<rparr>"

definition al0 :: allocator where
  "al0 = replicate 8 (Some (\<lambda>_. 0xAA))"

text \<open>What is looked at of a result: the return value and the fields of the object.\<close>

definition view :: "int \<times> meta_state \<Rightarrow> int \<times> u64 \<times> u64 \<times> u64 \<times> (u64 \<times> u64) list option" where
  "view r = (fst r, meta_size (fst (snd r)), allocated_size (fst (snd r)), attached (fst (snd r)),
             meta_items (fst (snd r)))"


section \<open>Properties of the make-bus parser\<close>

lemmas errno_defs =
  EPERM_def ENOMEM_def EFAULT_def EEXIST_def EINVAL_def ENAMETOOLONG_def
  EBADMSG_def EMSGSIZE_def ENOTSUPP_def

lemma make_item_km_make: "make_item mem km item = Inr km' \<Longrightarrow> km_make km' = km_make km"
  by (auto simp: make_item_def Let_def split: if_splits)

lemma visits_km_make: "visits mem km0 item0 seen km item \<Longrightarrow> km_make km = km_make km0"
  by (induction rule: visits.induct) (auto dest: make_item_km_make)

text \<open>The loop gives the same result from every state it passes through.\<close>

lemma visits_foreach:
  "visits mem km0 item0 seen km item \<Longrightarrow> item_foreach mem km item = item_foreach mem km0 item0"
proof (induction rule: visits.induct)
  case first
  show ?case by simp
next
  case (step seen km item km')
  have "item_foreach mem km item = item_foreach mem km' (item + KDBUS_ALIGN8 (load_u64 mem item))"
    using step.hyps(2,3) by (subst item_foreach.simps) simp
  with step.IH show ?case by simp
qed

lemma visits_prepend:
  assumes "visits mem km1 item1 seen km item"
    and "item0 < km_make km0 + load_u64 mem (km_make km0)"
    and "make_item mem km0 item0 = Inr km1"
    and "item1 = item0 + KDBUS_ALIGN8 (load_u64 mem item0)"
  shows "visits mem km0 item0 (item0 # seen) km item"
  using assms
proof (induction rule: visits.induct)
  case first
  have "visits mem km0 item0 ([] @ [item0]) km1 (item0 + KDBUS_ALIGN8 (load_u64 mem item0))"
    by (rule visits.step [OF visits.first]) (use first in auto)
  with first show ?case by simp
next
  case (step seen km item km')
  have "visits mem km0 item0 ((item0 # seen) @ [item]) km' (item + KDBUS_ALIGN8 (load_u64 mem item))"
    by (rule visits.step) (use step in auto)
  then show ?case by simp
qed

text \<open>
  Every run of the loop that ends without an error is a course in the sense of
  \<open>visits\<close>, so the theorems below, stated for courses, cover all such runs.
\<close>

lemma foreach_visits_aux:
  assumes "item_foreach mem0 k0 i0 = Some r0"
  shows "\<forall>km item. r0 = Inr (km, item) \<longrightarrow>
     (\<exists>seen. visits mem0 k0 i0 seen km item
        \<and> \<not> item < km_make km + load_u64 mem0 (km_make km))"
proof (rule item_foreach.raw_induct [where P = "\<lambda>mem km0 item0 r.
     \<forall>km item. r = Inr (km, item) \<longrightarrow>
     (\<exists>seen. visits mem km0 item0 seen km item
        \<and> \<not> item < km_make km + load_u64 mem (km_make km))", OF _ assms])
  fix loop mem km0 item0 r
  assume IH: "\<And>mem km0 item0 r. loop mem km0 item0 = Some r \<Longrightarrow>
     \<forall>km item. r = Inr (km, item) \<longrightarrow>
     (\<exists>seen. visits mem km0 item0 seen km item
        \<and> \<not> item < km_make km + load_u64 mem (km_make km))"
    and body: "(if item0 < km_make km0 + load_u64 mem (km_make km0) then
        (case make_item mem km0 item0 of
           Inl err \<Rightarrow> Some (Inl err)
         | Inr km' \<Rightarrow> loop mem km' (item0 + KDBUS_ALIGN8 (load_u64 mem item0)))
      else Some (Inr (km0, item0))) = Some r"
  show "\<forall>km item. r = Inr (km, item) \<longrightarrow>
     (\<exists>seen. visits mem km0 item0 seen km item
        \<and> \<not> item < km_make km + load_u64 mem (km_make km))"
  proof (intro allI impI)
    fix km item
    assume r: "r = Inr (km, item)"
    show "\<exists>seen. visits mem km0 item0 seen km item
        \<and> \<not> item < km_make km + load_u64 mem (km_make km)"
    proof (cases "item0 < km_make km0 + load_u64 mem (km_make km0)")
      case False
      with body r have "km = km0" "item = item0" by auto
      with False show ?thesis by (auto intro: visits.first)
    next
      case True
      show ?thesis
      proof (cases "make_item mem km0 item0")
        case (Inl e)
        with True body r show ?thesis by simp
      next
        case (Inr km1)
        with True body have "loop mem km1 (item0 + KDBUS_ALIGN8 (load_u64 mem item0)) = Some r"
          by simp
        from IH [OF this] r obtain seen where
          v: "visits mem km1 (item0 + KDBUS_ALIGN8 (load_u64 mem item0)) seen km item"
          and e: "\<not> item < km_make km + load_u64 mem (km_make km)"
          by blast
        from visits_prepend [OF v True Inr refl] e show ?thesis by blast
      qed
    qed
  qed
qed

lemma foreach_visits:
  "item_foreach mem km0 item0 = Some (Inr (km, item)) \<Longrightarrow>
   \<exists>seen. visits mem km0 item0 seen km item
      \<and> \<not> item < km_make km + load_u64 mem (km_make km)"
  using foreach_visits_aux by blast

text \<open>
  \<^verbatim>\<open>km->name\<close> is set exactly when the body of a name item has run, as long as
  the command does not lie in the last 16 bytes of the address space (where the
  address of a payload would wrap to the null pointer).
\<close>

lemma name_seen:
  assumes "visits mem km0 item0 seen km item"
    and "km_name km0 = 0"
    and "km_make km0 + load_u64 mem (km_make km0) \<le> 0xFFFFFFFFFFFFFFF0"
  shows "km_name km \<noteq> 0 \<longleftrightarrow> (\<exists>a\<in>set seen. load_u64 mem (a + 8) = KDBUS_CMD_MAKE_NAME)"
  using assms
proof (induction rule: visits.induct)
  case first
  then show ?case by simp
next
  case (step seen km item km')
  have mk: "km_make km = km_make km0" using step.hyps(1) by (rule visits_km_make)
  have "item < 0xFFFFFFFFFFFFFFF0" using step.hyps(2) step.prems(2) mk by simp
  moreover have "item = - 16" if "item + 16 = 0"
    using that by (simp add: eq_neg_iff_add_eq_0)
  moreover have "(- 16 :: u64) = 0xFFFFFFFFFFFFFFF0" by simp
  ultimately have nz: "item + 16 \<noteq> 0" by auto
  show ?case using step.IH step.prems step.hyps(3) nz
    by (auto simp: make_item_def Let_def KDBUS_CMD_MAKE_NAME_def KDBUS_CMD_MAKE_CGROUP_def
        split: if_splits)
qed

text \<open>What the function does once the command is copied, in terms of the loop's result.\<close>

lemma make_user_after_loop:
  assumes "kdbus_size_get_user (ubuf env) = Some sz"
    and "\<not> sz < sizeof_kdbus_cmd_bus_make" and "\<not> sz > 0xffff"
    and "kmalloc_km env = Some head"
    and "\<not> length (ubuf env) < unat sz"
    and "mem = copy_from_user (heap env) head (ubuf env) sz"
    and "item_foreach mem \<lparr>km_name = 0, km_cgroup_id = 0, km_make = head\<rparr>
           (head + sizeof_kdbus_cmd_bus_make) = r"
  shows "kdbus_bus_make_user env =
    (case r of None \<Rightarrow> None
        | Some (Inl err) \<Rightarrow> Some (err, None)
        | Some (Inr (km, item)) \<Rightarrow>
            if 8 \<le> sint (item - (km_make km + load_u64 mem (km_make km))) then Some (EINVAL, None)
            else if km_name km = 0 then Some (- EBADMSG, None)
            else if \<not> KDBUS_IS_ALIGNED8 (load_u64 mem (km_make km + 16)) then Some (- EINVAL, None)
            else if load_u64 mem (km_make km + 16) < 8 \<or> load_u64 mem (km_make km + 16) > 16 * 1024
              then Some (- EINVAL, None)
            else Some (0, Some (km, mem)))"
  using assms(1-5,7) unfolding kdbus_bus_make_user_def assms(6)
  by (simp add: Let_def)

lemma visits_one:
  assumes "item0 < km_make km0 + load_u64 mem (km_make km0)"
    and "make_item mem km0 item0 = Inr km1"
    and "item0 + KDBUS_ALIGN8 (load_u64 mem item0) = item1"
  shows "visits mem km0 item0 [item0] km1 item1"
  using visits.step [OF visits.first assms(1,2)] assms(3) by simp

lemma visits_frame_named_64:
  "visits (kmem (frame_named 64))
     \<lparr>km_name = 0, km_cgroup_id = 0, km_make = 0xFFFF880000100000\<rparr> 0xFFFF880000100018
     [0xFFFF880000100018]
     \<lparr>km_name = 0xFFFF880000100028, km_cgroup_id = 0, km_make = 0xFFFF880000100000\<rparr>
     0xFFFF880000100038"
  by (rule visits_one; code_simp)

lemma visits_frame_named_4:
  "visits (kmem (frame_named 4))
     \<lparr>km_name = 0, km_cgroup_id = 0, km_make = 0xFFFF880000100000\<rparr> 0xFFFF880000100018
     [0xFFFF880000100018]
     \<lparr>km_name = 0xFFFF880000100028, km_cgroup_id = 0, km_make = 0xFFFF880000100000\<rparr>
     0xFFFF880000100038"
  by (rule visits_one; code_simp)

lemma visits_frame_cgroup_48_24:
  "visits (kmem (frame_cgroup 48 24))
     \<lparr>km_name = 0, km_cgroup_id = 0, km_make = 0xFFFF880000100000\<rparr> 0xFFFF880000100018
     [0xFFFF880000100018]
     \<lparr>km_name = 0, km_cgroup_id = 1, km_make = 0xFFFF880000100000\<rparr>
     0xFFFF880000100030"
  by (rule visits_one; code_simp)

lemma env_of_simps:
  "ubuf (env_of F) = F" "kmalloc_km (env_of F) = Some 0xFFFF880000100000"
  "kdbus_size_get_user F = Some sz \<Longrightarrow>
     copy_from_user (heap (env_of F)) 0xFFFF880000100000 (ubuf (env_of F)) sz = kmem F"
  by (auto simp: env_of_def kmem_def kdbus_size_get_user_def split: if_splits)

text \<open>
  Claim C5. When the item loop of \<^verbatim>\<open>kdbus_bus_make_user\<close> has ended without an error
  (having run the bodies of the items \<open>seen\<close>) and the padding check has passed, the
  call returns \<^verbatim>\<open>-EBADMSG\<close> if none of the items was a name item; otherwise
  \<^verbatim>\<open>-EINVAL\<close> if the bloom size is not a multiple of 8 or lies outside 8 .. 16384;
  and only otherwise 0 with the parsed command.
\<close>

theorem make_user_final_checks:
  fixes env :: make_user_env and head sz :: u64
  defines "mem \<equiv> copy_from_user (heap env) head (ubuf env) sz"
  defines "bloom \<equiv> load_u64 mem (head + 16)"
  assumes fetched: "kdbus_size_get_user (ubuf env) = Some sz"
      "sizeof_kdbus_cmd_bus_make \<le> sz" "sz \<le> 0xffff"
      "kmalloc_km env = Some head" "unat sz \<le> length (ubuf env)"
    and top: "head + load_u64 mem head \<le> 0xFFFFFFFFFFFFFFF0"
    and loop: "visits mem \<lparr>km_name = 0, km_cgroup_id = 0, km_make = head\<rparr>
                 (head + sizeof_kdbus_cmd_bus_make) seen km item"
    and fin: "\<not> item < head + load_u64 mem head"
    and padding: "sint (item - (head + load_u64 mem head)) < 8"
  shows "kdbus_bus_make_user env = Some
     (if \<not> (\<exists>a\<in>set seen. load_u64 mem (a + 8) = KDBUS_CMD_MAKE_NAME) then (- EBADMSG, None)
      else if \<not> KDBUS_IS_ALIGNED8 bloom \<or> bloom < 8 \<or> 16 * 1024 < bloom
        then (- EINVAL, None)
      else (0, Some (km, mem)))"
proof -
  let ?km0 = "\<lparr>km_name = 0, km_cgroup_id = 0, km_make = head\<rparr>"
  have mk: "km_make km = head" using visits_km_make [OF loop] by simp
  have "item_foreach mem km item = Some (Inr (km, item))"
    using fin mk by (subst item_foreach.simps) simp
  then have r: "item_foreach mem ?km0 (head + sizeof_kdbus_cmd_bus_make) = Some (Inr (km, item))"
    using visits_foreach [OF loop] by simp
  have nm: "km_name km \<noteq> 0 \<longleftrightarrow> (\<exists>a\<in>set seen. load_u64 mem (a + 8) = KDBUS_CMD_MAKE_NAME)"
    by (rule name_seen [OF loop]) (use top in simp_all)
  have m: "mem = copy_from_user (heap env) head (ubuf env) sz" by (simp add: mem_def)
  have a: "\<not> sz < sizeof_kdbus_cmd_bus_make" "\<not> sz > 0xffff" "\<not> length (ubuf env) < unat sz"
    using fetched(2,3,5) by (simp_all add: not_less)
  show ?thesis
    using make_user_after_loop [OF fetched(1) a(1,2) fetched(4) a(3) m r] padding mk nm
    by (auto simp: bloom_def)
qed

theorem make_user_final_checks_witness:
  "kdbus_bus_make_user (env_of (frame_named 64)) =
     Some (0, Some (\<lparr>km_name = 0xFFFF880000100028, km_cgroup_id = 0, km_make = 0xFFFF880000100000\<rparr>,
                    kmem (frame_named 64)))
   \<and> kdbus_bus_make_user (env_of (frame_named 4)) = Some (- EINVAL, None)
   \<and> kdbus_bus_make_user (env_of (frame_cgroup 48 24)) = Some (- EBADMSG, None)"
proof -
  let ?H = "0xFFFF880000100000 :: addr"
  have inst: "kdbus_bus_make_user (env_of F) = Some
     (if \<not> (\<exists>a\<in>set seen. load_u64 (kmem F) (a + 8) = KDBUS_CMD_MAKE_NAME) then (- EBADMSG, None)
      else if \<not> KDBUS_IS_ALIGNED8 (load_u64 (kmem F) (?H + 16)) \<or> load_u64 (kmem F) (?H + 16) < 8
          \<or> 16 * 1024 < load_u64 (kmem F) (?H + 16)
        then (- EINVAL, None)
      else (0, Some (km, kmem F)))"
    if "kdbus_size_get_user F = Some sz" "sizeof_kdbus_cmd_bus_make \<le> sz" "sz \<le> 0xffff"
      "unat sz \<le> length F" "?H + load_u64 (kmem F) ?H \<le> 0xFFFFFFFFFFFFFFF0"
      "visits (kmem F) \<lparr>km_name = 0, km_cgroup_id = 0, km_make = ?H\<rparr>
         (?H + sizeof_kdbus_cmd_bus_make) seen km item"
      "\<not> item < ?H + load_u64 (kmem F) ?H" "sint (item - (?H + load_u64 (kmem F) ?H)) < 8"
    for F sz seen km item
  proof -
    have m: "copy_from_user (heap (env_of F)) ?H F sz = kmem F"
      using env_of_simps(3) [OF that(1)] by (simp add: env_of_simps(1))
    show ?thesis
      using make_user_final_checks [of "env_of F" sz ?H seen km item] that
      unfolding m env_of_simps(1,2) by simp
  qed
  have a: "?H + sizeof_kdbus_cmd_bus_make = 0xFFFF880000100018"
    by (simp add: sizeof_kdbus_cmd_bus_make_def)
  have "kdbus_bus_make_user (env_of (frame_named 64)) =
     Some (0, Some (\<lparr>km_name = 0xFFFF880000100028, km_cgroup_id = 0, km_make = ?H\<rparr>,
                    kmem (frame_named 64)))"
    by (subst inst [where sz = 56 and seen = "[0xFFFF880000100018]" and item = "0xFFFF880000100038"
          and km = "\<lparr>km_name = 0xFFFF880000100028, km_cgroup_id = 0, km_make = 0xFFFF880000100000\<rparr>"];
        (unfold a)?; (rule visits_frame_named_64 | code_simp | simp))
  moreover have "kdbus_bus_make_user (env_of (frame_named 4)) = Some (- EINVAL, None)"
    by (subst inst [where sz = 56 and seen = "[0xFFFF880000100018]" and item = "0xFFFF880000100038"
          and km = "\<lparr>km_name = 0xFFFF880000100028, km_cgroup_id = 0, km_make = 0xFFFF880000100000\<rparr>"];
        (unfold a)?; (rule visits_frame_named_4 | code_simp))
  moreover have "kdbus_bus_make_user (env_of (frame_cgroup 48 24)) = Some (- EBADMSG, None)"
    by (subst inst [where sz = 48 and seen = "[0xFFFF880000100018]" and item = "0xFFFF880000100030"
          and km = "\<lparr>km_name = 0, km_cgroup_id = 1, km_make = 0xFFFF880000100000\<rparr>"];
        (unfold a)?; (rule visits_frame_cgroup_48_24 | code_simp))
  ultimately show ?thesis by simp
qed

text \<open>
  An item on which the loop body fails ends the call with the body's error.
\<close>

lemma make_user_item_fails:
  assumes "kdbus_size_get_user (ubuf env) = Some sz"
    and "sizeof_kdbus_cmd_bus_make \<le> sz" and "sz \<le> 0xffff"
    and "kmalloc_km env = Some head" and "unat sz \<le> length (ubuf env)"
    and "mem = copy_from_user (heap env) head (ubuf env) sz"
    and "visits mem \<lparr>km_name = 0, km_cgroup_id = 0, km_make = head\<rparr>
           (head + sizeof_kdbus_cmd_bus_make) seen km item"
    and "item < head + load_u64 mem head"
    and "make_item mem km item = Inl err"
  shows "kdbus_bus_make_user env = Some (err, None)"
proof -
  have mk: "km_make km = head" using visits_km_make [OF assms(7)] by simp
  have "item_foreach mem km item = Some (Inl err)"
    using assms(8,9) mk by (subst item_foreach.simps) simp
  then have r: "item_foreach mem \<lparr>km_name = 0, km_cgroup_id = 0, km_make = head\<rparr>
      (head + sizeof_kdbus_cmd_bus_make) = Some (Inl err)"
    using visits_foreach [OF assms(7)] by simp
  have a: "\<not> sz < sizeof_kdbus_cmd_bus_make" "\<not> sz > 0xffff" "\<not> length (ubuf env) < unat sz"
    using assms(2,3,5) by (simp_all add: not_less)
  show ?thesis
    using make_user_after_loop [OF assms(1) a(1,2) assms(4) a(3) assms(6) r] by simp
qed

text \<open>
  Claim C6. For the item at which the loop of \<^verbatim>\<open>kdbus_bus_make_user\<close> stands (after
  the items \<open>seen\<close>), in the order in which the code checks: a declared size of at most
  the item header (16) gives \<^verbatim>\<open>-EINVAL\<close>; a name item after an earlier name item
  gives \<^verbatim>\<open>-EEXIST\<close>; a first name item with a payload of less than 2 bytes gives
  \<^verbatim>\<open>-EINVAL\<close>, of more than 64 bytes \<^verbatim>\<open>-ENAMETOOLONG\<close>, and with a payload that
  is not a NUL-terminated string \<^verbatim>\<open>-EINVAL\<close>; an item that is neither a name nor a
  cgroup item gives \<^verbatim>\<open>-ENOTSUPP\<close>.
\<close>

theorem make_user_item_errors:
  fixes env :: make_user_env and head sz item :: u64 and seen :: "addr list"
  defines "mem \<equiv> copy_from_user (heap env) head (ubuf env) sz"
  defines "item_size \<equiv> load_u64 mem item"
  defines "item_type \<equiv> load_u64 mem (item + 8)"
  defines "named \<equiv> \<exists>a\<in>set seen. load_u64 mem (a + 8) = KDBUS_CMD_MAKE_NAME"
  assumes fetched: "kdbus_size_get_user (ubuf env) = Some sz"
      "sizeof_kdbus_cmd_bus_make \<le> sz" "sz \<le> 0xffff"
      "kmalloc_km env = Some head" "unat sz \<le> length (ubuf env)"
    and top: "head + load_u64 mem head \<le> 0xFFFFFFFFFFFFFFF0"
    and loop: "visits mem \<lparr>km_name = 0, km_cgroup_id = 0, km_make = head\<rparr>
                 (head + sizeof_kdbus_cmd_bus_make) seen km item"
    and here: "item < head + load_u64 mem head"
  shows
   "(item_size \<le> 16 \<longrightarrow> kdbus_bus_make_user env = Some (- EINVAL, None))
  \<and> (16 < item_size \<and> item_type = KDBUS_CMD_MAKE_NAME \<and> named \<longrightarrow>
       kdbus_bus_make_user env = Some (- EEXIST, None))
  \<and> (16 < item_size \<and> item_type = KDBUS_CMD_MAKE_NAME \<and> \<not> named \<and> item_size < 16 + 2 \<longrightarrow>
       kdbus_bus_make_user env = Some (- EINVAL, None))
  \<and> (item_type = KDBUS_CMD_MAKE_NAME \<and> \<not> named \<and> 16 + 64 < item_size \<longrightarrow>
       kdbus_bus_make_user env = Some (- ENAMETOOLONG, None))
  \<and> (item_type = KDBUS_CMD_MAKE_NAME \<and> \<not> named \<and> 16 + 2 \<le> item_size \<and> item_size \<le> 16 + 64
       \<and> \<not> kdbus_validate_nul mem (item + 16) (item_size - 16) \<longrightarrow>
       kdbus_bus_make_user env = Some (- EINVAL, None))
  \<and> (16 < item_size \<and> item_type \<noteq> KDBUS_CMD_MAKE_NAME \<and> item_type \<noteq> KDBUS_CMD_MAKE_CGROUP \<longrightarrow>
       kdbus_bus_make_user env = Some (- ENOTSUPP, None))"
proof -
  have m: "mem = copy_from_user (heap env) head (ubuf env) sz" by (simp add: mem_def)
  have nm: "km_name km \<noteq> 0 \<longleftrightarrow> named"
    unfolding named_def by (rule name_seen [OF loop]) (use top in simp_all)
  note fails = make_user_item_fails [OF fetched m loop here]
  have 1: "kdbus_bus_make_user env = Some (- EINVAL, None)" if "item_size \<le> 16"
    by (rule fails) (use that in \<open>simp add: make_item_def item_size_def KDBUS_ITEM_HEADER_SIZE_def\<close>)
  have 2: "kdbus_bus_make_user env = Some (- EEXIST, None)"
    if "16 < item_size" "item_type = KDBUS_CMD_MAKE_NAME" "named"
    by (rule fails)
      (use that nm in \<open>simp add: make_item_def item_size_def item_type_def
         KDBUS_ITEM_HEADER_SIZE_def not_le [symmetric]\<close>)
  have 3: "kdbus_bus_make_user env = Some (- EINVAL, None)"
    if "16 < item_size" "item_type = KDBUS_CMD_MAKE_NAME" "\<not> named" "item_size < 16 + 2"
    by (rule fails)
      (use that nm in \<open>simp add: make_item_def item_size_def item_type_def
         KDBUS_ITEM_HEADER_SIZE_def not_le [symmetric]\<close>)
  have 4: "kdbus_bus_make_user env = Some (- ENAMETOOLONG, None)"
    if "item_type = KDBUS_CMD_MAKE_NAME" "\<not> named" "16 + 64 < item_size"
  proof -
    have "16 < item_size" "\<not> item_size < 18" using that(3) by (simp_all add: word_less_nat_alt)
    then show ?thesis
      by (intro fails)
        (use that nm in \<open>simp add: make_item_def item_size_def item_type_def
           KDBUS_ITEM_HEADER_SIZE_def not_le [symmetric]\<close>)
  qed
  have 5: "kdbus_bus_make_user env = Some (- EINVAL, None)"
    if "item_type = KDBUS_CMD_MAKE_NAME" "\<not> named" "16 + 2 \<le> item_size" "item_size \<le> 16 + 64"
      "\<not> kdbus_validate_nul mem (item + 16) (item_size - 16)"
  proof -
    have "16 < item_size" "\<not> item_size < 18" "\<not> 80 < item_size"
      using that(3,4) by (simp_all add: word_less_nat_alt word_le_nat_alt)
    then show ?thesis
      by (intro fails)
        (use that nm in \<open>simp add: make_item_def item_size_def item_type_def
           KDBUS_ITEM_HEADER_SIZE_def not_le [symmetric]\<close>)
  qed
  have 6: "kdbus_bus_make_user env = Some (- ENOTSUPP, None)"
    if "16 < item_size" "item_type \<noteq> KDBUS_CMD_MAKE_NAME" "item_type \<noteq> KDBUS_CMD_MAKE_CGROUP"
    by (rule fails)
      (use that in \<open>simp add: make_item_def item_size_def item_type_def
         KDBUS_ITEM_HEADER_SIZE_def not_le [symmetric]\<close>)
  from 1 2 3 4 5 6 show ?thesis by blast
qed

lemma visits_cmd_two_names:
  "visits (kmem cmd_two_names)
     \<lparr>km_name = 0, km_cgroup_id = 0, km_make = 0xFFFF880000100000\<rparr> 0xFFFF880000100018
     [0xFFFF880000100018]
     \<lparr>km_name = 0xFFFF880000100028, km_cgroup_id = 0, km_make = 0xFFFF880000100000\<rparr>
     0xFFFF880000100038"
  by (rule visits_one; code_simp)

theorem make_user_item_errors_witness:
  "kdbus_bus_make_user (env_of cmd_empty_item) = Some (- EINVAL, None)
   \<and> kdbus_bus_make_user (env_of cmd_two_names) = Some (- EEXIST, None)
   \<and> kdbus_bus_make_user (env_of cmd_short_name) = Some (- EINVAL, None)
   \<and> kdbus_bus_make_user (env_of cmd_long_name) = Some (- ENAMETOOLONG, None)
   \<and> kdbus_bus_make_user (env_of cmd_unterminated) = Some (- EINVAL, None)
   \<and> kdbus_bus_make_user (env_of cmd_unknown) = Some (- ENOTSUPP, None)"
proof -
  let ?H = "0xFFFF880000100000 :: addr"
  let ?km0 = "\<lparr>km_name = 0, km_cgroup_id = 0, km_make = ?H\<rparr>"
  have a: "?H + sizeof_kdbus_cmd_bus_make = 0xFFFF880000100018"
    by (simp add: sizeof_kdbus_cmd_bus_make_def)
  have inst:
     "(load_u64 (kmem F) item \<le> 16 \<longrightarrow> kdbus_bus_make_user (env_of F) = Some (- EINVAL, None))
    \<and> (16 < load_u64 (kmem F) item \<and> load_u64 (kmem F) (item + 8) = KDBUS_CMD_MAKE_NAME
        \<and> (\<exists>a\<in>set seen. load_u64 (kmem F) (a + 8) = KDBUS_CMD_MAKE_NAME) \<longrightarrow>
         kdbus_bus_make_user (env_of F) = Some (- EEXIST, None))
    \<and> (16 < load_u64 (kmem F) item \<and> load_u64 (kmem F) (item + 8) = KDBUS_CMD_MAKE_NAME
        \<and> \<not> (\<exists>a\<in>set seen. load_u64 (kmem F) (a + 8) = KDBUS_CMD_MAKE_NAME)
        \<and> load_u64 (kmem F) item < 16 + 2 \<longrightarrow>
         kdbus_bus_make_user (env_of F) = Some (- EINVAL, None))
    \<and> (load_u64 (kmem F) (item + 8) = KDBUS_CMD_MAKE_NAME
        \<and> \<not> (\<exists>a\<in>set seen. load_u64 (kmem F) (a + 8) = KDBUS_CMD_MAKE_NAME)
        \<and> 16 + 64 < load_u64 (kmem F) item \<longrightarrow>
         kdbus_bus_make_user (env_of F) = Some (- ENAMETOOLONG, None))
    \<and> (load_u64 (kmem F) (item + 8) = KDBUS_CMD_MAKE_NAME
        \<and> \<not> (\<exists>a\<in>set seen. load_u64 (kmem F) (a + 8) = KDBUS_CMD_MAKE_NAME)
        \<and> 16 + 2 \<le> load_u64 (kmem F) item \<and> load_u64 (kmem F) item \<le> 16 + 64
        \<and> \<not> kdbus_validate_nul (kmem F) (item + 16) (load_u64 (kmem F) item - 16) \<longrightarrow>
         kdbus_bus_make_user (env_of F) = Some (- EINVAL, None))
    \<and> (16 < load_u64 (kmem F) item \<and> load_u64 (kmem F) (item + 8) \<noteq> KDBUS_CMD_MAKE_NAME
        \<and> load_u64 (kmem F) (item + 8) \<noteq> KDBUS_CMD_MAKE_CGROUP \<longrightarrow>
         kdbus_bus_make_user (env_of F) = Some (- ENOTSUPP, None))"
    if "kdbus_size_get_user F = Some sz" "sizeof_kdbus_cmd_bus_make \<le> sz" "sz \<le> 0xffff"
      "unat sz \<le> length F" "?H + load_u64 (kmem F) ?H \<le> 0xFFFFFFFFFFFFFFF0"
      "visits (kmem F) ?km0 0xFFFF880000100018 seen km item"
      "item < ?H + load_u64 (kmem F) ?H"
    for F sz seen km item
  proof -
    have m: "copy_from_user (heap (env_of F)) ?H F sz = kmem F"
      using env_of_simps(3) [OF that(1)] by (simp add: env_of_simps(1))
    show ?thesis
      using make_user_item_errors [of "env_of F" sz ?H seen km item] that
      unfolding m env_of_simps(1,2) a by simp
  qed
  have first: "visits (kmem F) ?km0 0xFFFF880000100018 [] ?km0 0xFFFF880000100018" for F
    by (rule visits.first)
  have "kdbus_bus_make_user (env_of cmd_empty_item) = Some (- EINVAL, None)"
    by (rule inst [where sz = 40, OF _ _ _ _ _ first, THEN conjunct1, THEN mp]; code_simp)
  moreover have "kdbus_bus_make_user (env_of cmd_two_names) = Some (- EEXIST, None)"
    by (rule inst [where sz = 88, OF _ _ _ _ _ visits_cmd_two_names,
          THEN conjunct2, THEN conjunct1, THEN mp]; code_simp)
  moreover have "kdbus_bus_make_user (env_of cmd_short_name) = Some (- EINVAL, None)"
    by (rule inst [where sz = 48, OF _ _ _ _ _ first,
          THEN conjunct2, THEN conjunct2, THEN conjunct1, THEN mp]; code_simp)
  moreover have "kdbus_bus_make_user (env_of cmd_long_name) = Some (- ENAMETOOLONG, None)"
    by (rule inst [where sz = 48, OF _ _ _ _ _ first,
          THEN conjunct2, THEN conjunct2, THEN conjunct2, THEN conjunct1, THEN mp]; code_simp)
  moreover have "kdbus_bus_make_user (env_of cmd_unterminated) = Some (- EINVAL, None)"
    by (rule inst [where sz = 48, OF _ _ _ _ _ first,
          THEN conjunct2, THEN conjunct2, THEN conjunct2, THEN conjunct2, THEN conjunct1, THEN mp];
        code_simp)
  moreover have "kdbus_bus_make_user (env_of cmd_unknown) = Some (- ENOTSUPP, None)"
    by (rule inst [where sz = 48, OF _ _ _ _ _ first,
          THEN conjunct2, THEN conjunct2, THEN conjunct2, THEN conjunct2, THEN conjunct2, THEN mp];
        code_simp)
  ultimately show ?thesis by simp
qed

text \<open>
  Claim C2, at a command whose only item declares 40 bytes in a command of 48: the
  loop ends without an error with the cursor 16 bytes past the end of the command, and
  the function returns the positive number \<^verbatim>\<open>EINVAL\<close> (the statement at the padding
  check is \<^verbatim>\<open>return EINVAL;\<close>), not the negative error number that every other
  failure returns; no command is stored.
\<close>

theorem make_user_padding_returns_positive:
  "kdbus_bus_make_user (env_of (frame_cgroup 48 40)) = Some (EINVAL, None) \<and> EINVAL = 22"
  by code_simp

text \<open>The same for every command on which the padding check fails.\<close>

lemma make_user_padding_check:
  assumes "kdbus_size_get_user (ubuf env) = Some sz"
    and "sizeof_kdbus_cmd_bus_make \<le> sz" and "sz \<le> 0xffff"
    and "kmalloc_km env = Some head" and "unat sz \<le> length (ubuf env)"
    and "mem = copy_from_user (heap env) head (ubuf env) sz"
    and "item_foreach mem \<lparr>km_name = 0, km_cgroup_id = 0, km_make = head\<rparr>
           (head + sizeof_kdbus_cmd_bus_make) = Some (Inr (km, item))"
    and "8 \<le> sint (item - (km_make km + load_u64 mem (km_make km)))"
  shows "kdbus_bus_make_user env = Some (EINVAL, None)"
proof -
  have a: "\<not> sz < sizeof_kdbus_cmd_bus_make" "\<not> sz > 0xffff" "\<not> length (ubuf env) < unat sz"
    using assms(2,3,5) by (simp_all add: not_less)
  show ?thesis
    using make_user_after_loop [OF assms(1) a(1,2) assms(4) a(3) assms(6,7)] assms(8) by simp
qed

section \<open>Properties of bus creation\<close>

text \<open>
  The comparison length in \<^verbatim>\<open>kdbus_bus_new\<close> is the truth value of
  \<^verbatim>\<open>strlen(prefix) != 0\<close>, that is 1: only the first character of the name is
  compared with the first digit of the creator's number.
\<close>

lemma strncmp_1: "strncmp cs ct (Suc 0) = 0 \<longleftrightarrow> take 1 cs = take 1 ct"
  by (cases cs; cases ct) auto

lemma decimal_not_Nil: "decimal n \<noteq> []"
  by (subst decimal.simps) simp

lemma kdbus_bus_new_prefix_check:
  assumes "take 1 (kmake_name bus_kmake) \<noteq> take 1 (decimal (unat (from_kuid env uid)))"
  shows "kdbus_bus_new env s ns bus_kmake mode uid gid = Return (- EPERM, None, s)"
proof -
  let ?prefix = "snprintf_u_dash 16 (from_kuid env uid)"
  obtain c cs where d: "decimal (unat (from_kuid env uid)) = c # cs"
    using decimal_not_Nil by (cases "decimal (unat (from_kuid env uid))") auto
  then have p: "?prefix \<noteq> []" "take 1 ?prefix = [c]"
    by (simp_all add: snprintf_u_dash_def)
  have "strncmp (kmake_name bus_kmake) ?prefix (Suc 0) \<noteq> 0"
    using assms p(2) d by (simp add: strncmp_1)
  then have ne: "strncmp (kmake_name bus_kmake) ?prefix (if length ?prefix \<noteq> 0 then 1 else 0) \<noteq> 0"
    using p(1) by simp
  show ?thesis
    unfolding kdbus_bus_new_def Let_def by (simp only: if_P [OF ne])
qed

text \<open>Scenario S2 of the specification: creator 1000, name \<^verbatim>\<open>999-test\<close>.\<close>

lemma kdbus_bus_new_999:
  "kdbus_bus_new env_bus_ok s_init 1 (kmake_of ''999-test'') 0x180 1000 1000
     = Return (- EPERM, None, s_init)"
  by (rule kdbus_bus_new_prefix_check) code_simp

text \<open>
  Claim C1, at creator 1000 and the name \<^verbatim>\<open>1001-test\<close>, which does not begin with
  \<^verbatim>\<open>1000-\<close>: the call returns 0 and the bus is created and listed in the namespace.
\<close>

theorem kdbus_bus_new_accepts_foreign_prefix:
  "(case kdbus_bus_new env_bus_ok s_init 1 (kmake_of ''1001-test'') 0x180 1000 1000 of
      Fault \<Rightarrow> False
    | Return (ret, bus, s') \<Rightarrow>
        ret = 0 \<and> bus = Some 3
        \<and> map_option bus_name (buses s' 3) = Some (Some ''1001-test'')
        \<and> map_option bus_list (nss s' 1) = Some [3])
   \<and> snprintf_u_dash 16 (from_kuid env_bus_ok 1000) = ''1000-''"
  by code_simp

text \<open>
  The exits through the label \<^verbatim>\<open>ret\<close> release a bus that was never put on the list
  of its namespace: \<^verbatim>\<open>kdbus_bus_unref\<close> drops the only reference,
  \<^verbatim>\<open>__kdbus_bus_free\<close> calls \<^verbatim>\<open>kdbus_bus_disconnect\<close>, and its \<^verbatim>\<open>list_del\<close>
  writes through the null pointers of the cleared \<^verbatim>\<open>bus_entry\<close>.
\<close>

lemma bus_new_fail_unlisted:
  assumes "nss s ns = Some n" and "b \<notin> set (bus_list n)"
    and "bus_kref bus = 1" and "\<not> bus_disconnected bus" and "bus_ns bus = ns"
  shows "bus_new_fail ret (s\<lparr>buses := (buses s)(b \<mapsto> bus)\<rparr>) b = Fault"
  using assms
  by (simp add: bus_new_fail_def kdbus_bus_unref_def kdbus_bus_free_def kdbus_bus_disconnect_def
      call_def list_del_def)

lemma kdbus_bus_new_kstrdup_failure:
  "kdbus_bus_new (env_bus_ok\<lparr>kstrdup_name := False\<rparr>) s_init 1 (kmake_of ''1000-test'') 0x180
     1000 1000 = Fault"
proof -
  have "case kdbus_bus_new (env_bus_ok\<lparr>kstrdup_name := False\<rparr>) s_init 1 (kmake_of ''1000-test'')
      0x180 1000 1000 of Fault \<Rightarrow> True | Return r \<Rightarrow> False"
    by code_simp
  then show ?thesis by (simp split: outcome.splits)
qed


section \<open>Properties of namespace creation\<close>

text \<open>Creating the initial namespace in the empty state, with every resource granted.\<close>

lemma kdbus_ns_new_init:
  "kdbus_ns_new env_ns_ok s_empty None None 0x1b6 = Return (Value 0, Some 1, s_init)"
  by (simp add: kdbus_ns_new_def kdbus_ns_find_def ns_new_devpath_def ns_new_register_def
      env_ns_ok_def s_empty_def s_init_def ns_init_def KDBUS_CHAR_MAJOR_def)

text \<open>
  The exits through the labels \<^verbatim>\<open>err_unlock\<close> and \<^verbatim>\<open>ret\<close> release a namespace
  that was never put on \<^verbatim>\<open>namespace_list\<close>: \<^verbatim>\<open>kdbus_ns_unref\<close> drops the only
  reference, \<^verbatim>\<open>__kdbus_ns_free\<close> calls \<^verbatim>\<open>kdbus_ns_disconnect\<close>, and its
  \<^verbatim>\<open>list_del\<close> writes through the null pointers of the cleared \<^verbatim>\<open>ns_entry\<close>.
\<close>

lemma ns_new_fail_unlisted:
  assumes "n \<notin> set (namespace_list s)" and "ns_kref ns = 1" and "\<not> ns_disconnected ns"
  shows "ns_new_fail ret (s\<lparr>nss := (nss s)(n \<mapsto> ns)\<rparr>) n = Fault"
  using assms
  by (simp add: ns_new_fail_def kdbus_ns_unref_def kdbus_ns_free_def kdbus_ns_disconnect_def
      list_del_def)

text \<open>
  When \<^verbatim>\<open>kzalloc\<close> of the control device fails, the value of \<^verbatim>\<open>ret\<close> goes to the
  exit as it is: nothing assigns \<^verbatim>\<open>-ENOMEM\<close> to it. For the initial namespace it
  holds the 0 that \<^verbatim>\<open>register_chrdev\<close> returned, for a namespace with a parent it has
  not been assigned at all.
\<close>

lemma ns_new_register_dev_alloc_failure:
  assumes "0 < idr_alloc_ret env" and "kzalloc_dev env = None"
  shows "ns_new_register env s n ret ns =
           ns_new_fail ret
             (s\<lparr>kdbus_ns_major_idr := (kdbus_ns_major_idr s)(idr_alloc_ret env \<mapsto> n),
                kdbus_ns_id_next := kdbus_ns_id_next s + 1,
                nss := (nss s)(n \<mapsto> ns\<lparr>ns_id := kdbus_ns_id_next s\<rparr>)\<rparr>) n"
  using assms by (simp add: ns_new_register_def Let_def)

lemma ns_new_devpath_ret:
  "ns_new_devpath env_ns_ok s None None ns0
     = Return (Inr (Value 0, ns0\<lparr>devpath := Some ''kdbus'', major := KDBUS_CHAR_MAJOR\<rparr>))"
  "ns_new_devpath (env_ns_ok\<lparr>register_chrdev_ret := 250\<rparr>) s_init (Some 1) (Some ''test'') ns0
     = Return (Inr (Indeterminate,
         ns0\<lparr>ns_parent := Some 1, devpath := Some ''kdbus/ns/kdbus/test'', major := 250,
             ns_name := Some ''test''\<rparr>))"
  by (simp_all add: ns_new_devpath_def env_ns_ok_def s_init_def ns_init_def format_s_def Let_def)

text \<open>
  Claim C3, at the creation of the initial namespace when \<^verbatim>\<open>kzalloc\<close> of the control
  device fails: the path to \<^verbatim>\<open>err_unlock\<close> does not assign to \<^verbatim>\<open>ret\<close>, and
  \<^verbatim>\<open>kdbus_ns_unref\<close> there releases a namespace that is not on \<^verbatim>\<open>namespace_list\<close>:
  the call makes an invalid memory access in \<^verbatim>\<open>list_del\<close>; it does not return
  \<^verbatim>\<open>-ENOMEM\<close>.
\<close>

theorem kdbus_ns_new_dev_alloc_failure:
  "kdbus_ns_new (env_ns_ok\<lparr>kzalloc_dev := None\<rparr>) s_empty None None 0x1b6 = Fault"
  by (simp add: kdbus_ns_new_def kdbus_ns_find_def ns_new_devpath_def ns_new_register_def
      ns_new_fail_def kdbus_ns_unref_def kdbus_ns_free_def kdbus_ns_disconnect_def list_del_def
      env_ns_ok_def s_empty_def KDBUS_CHAR_MAJOR_def)

text \<open>
  Of the allocations before it, \<^verbatim>\<open>kzalloc\<close> of the namespace gives \<^verbatim>\<open>-ENOMEM\<close>; a
  failure to allocate the device path goes through the label \<^verbatim>\<open>ret\<close>.
\<close>

lemma kdbus_ns_new_enomem:
  "kzalloc_ns env = None \<Longrightarrow>
   kdbus_ns_new env s_empty None None mode = Return (Value (- ENOMEM), None, s_empty)"
  by (simp add: kdbus_ns_new_def kdbus_ns_find_def s_empty_def)

lemma kdbus_ns_new_devpath_failure:
  "kzalloc_ns env = Some n \<Longrightarrow> \<not> alloc_devpath env \<Longrightarrow>
   kdbus_ns_new env s_empty None None mode = Fault"
  by (simp add: kdbus_ns_new_def kdbus_ns_find_def ns_new_devpath_def ns_new_fail_def
      kdbus_ns_unref_def kdbus_ns_free_def kdbus_ns_disconnect_def list_del_def s_empty_def)

text \<open>
  Claim C7, at a second creation of the initial namespace: \<^verbatim>\<open>kdbus_ns_find\<close> finds
  the listed initial namespace to have the parent asked for (none) and calls
  \<^verbatim>\<open>strcmp(n->name, name)\<close> with both pointers null.
\<close>

theorem kdbus_ns_new_second_init_faults:
  "kdbus_ns_new env_ns_ok s_init None None 0x1b6 = Fault"
  by (simp add: kdbus_ns_new_def kdbus_ns_find_def s_init_def ns_init_def strcmp_ptr_def)

lemma kdbus_ns_new_einval:
  "(parent \<noteq> None \<and> nm = None) \<or> (parent = None \<and> nm \<noteq> None) \<Longrightarrow>
   kdbus_ns_new env s parent nm mode = Return (Value (- EINVAL), None, s)"
  by (simp add: kdbus_ns_new_def)


section \<open>Properties of disconnecting\<close>

text \<open>A call for an object that is disconnected returns at once.\<close>

lemma kdbus_bus_disconnect_again:
  "buses s b = Some bus \<Longrightarrow> bus_disconnected bus \<Longrightarrow> kdbus_bus_disconnect s b = Return s"
  by (simp add: kdbus_bus_disconnect_def)

lemma kdbus_ns_disconnect_again:
  "nss s n = Some ns \<Longrightarrow> ns_disconnected ns \<Longrightarrow> kdbus_ns_disconnect s n = Return s"
  by (simp add: kdbus_ns_disconnect_def)

text \<open>
  The first call for a bus that is on the list of its namespace sets the flag, takes the
  bus off the list, and disconnects and releases each of its endpoints once.
\<close>

lemma kdbus_bus_disconnect_first:
  assumes "buses s b = Some bus" and "\<not> bus_disconnected bus"
    and "nss s (bus_ns bus) = Some ns" and "b \<in> set (bus_list ns)"
  shows "\<exists>s' bus'. kdbus_bus_disconnect s b = Return s'
           \<and> buses s' b = Some bus' \<and> bus_disconnected bus' \<and> ep_list bus' = []
           \<and> map_option bus_list (nss s' (bus_ns bus)) = Some (remove1 b (bus_list ns))
           \<and> calls s' = calls s
                @ concat (map (\<lambda>ep. [Kdbus_ep_disconnect ep, Kdbus_ep_unref ep]) (ep_list bus))"
  using assms by (simp add: kdbus_bus_disconnect_def list_del_def)

text \<open>
  The first call for a namespace that is on \<^verbatim>\<open>namespace_list\<close> sets the flag, takes
  the namespace off the list, unregisters its control device and gives back its major.
  Its list of buses is not looked at.
\<close>

lemma kdbus_ns_disconnect_first:
  assumes "nss s n = Some ns" and "\<not> ns_disconnected ns" and "n \<in> set (namespace_list s)"
  shows "\<exists>s' ns'. kdbus_ns_disconnect s n = Return s'
           \<and> nss s' n = Some ns' \<and> ns_disconnected ns' \<and> dev ns' = None \<and> major ns' \<le> 0
           \<and> bus_list ns' = bus_list ns
           \<and> namespace_list s' = remove1 n (namespace_list s)
           \<and> buses s' = buses s
           \<and> calls s' = calls s
                @ (case dev ns of None \<Rightarrow> [] | Some d \<Rightarrow> [Device_unregister d])
                @ (if major ns > 0 then [Unregister_chrdev (major ns)] else [])"
  using assms
  by (auto simp: kdbus_ns_disconnect_def list_del_def Let_def call_def split: option.splits)

text \<open>The first call for an object that is on no list writes through a null pointer.\<close>

lemma kdbus_bus_disconnect_unlisted:
  "buses s b = Some bus \<Longrightarrow> \<not> bus_disconnected bus \<Longrightarrow> nss s (bus_ns bus) = Some ns \<Longrightarrow>
   b \<notin> set (bus_list ns) \<Longrightarrow> kdbus_bus_disconnect s b = Fault"
  by (simp add: kdbus_bus_disconnect_def list_del_def)

lemma kdbus_ns_disconnect_unlisted:
  "nss s n = Some ns \<Longrightarrow> \<not> ns_disconnected ns \<Longrightarrow> n \<notin> set (namespace_list s) \<Longrightarrow>
   kdbus_ns_disconnect s n = Fault"
  by (simp add: kdbus_ns_disconnect_def list_del_def)

text \<open>A call that returns leaves the object disconnected, and a second call changes nothing.\<close>

lemma kdbus_bus_disconnect_twice:
  assumes "kdbus_bus_disconnect s b = Return s'"
  shows "kdbus_bus_disconnect s' b = Return s'"
    and "\<exists>bus'. buses s' b = Some bus' \<and> bus_disconnected bus'"
proof -
  from assms have "\<exists>bus'. buses s' b = Some bus' \<and> bus_disconnected bus'"
    by (auto simp: kdbus_bus_disconnect_def split: option.splits if_splits outcome.splits)
  then show "\<exists>bus'. buses s' b = Some bus' \<and> bus_disconnected bus'" .
  then show "kdbus_bus_disconnect s' b = Return s'" by (auto simp: kdbus_bus_disconnect_again)
qed

lemma kdbus_ns_disconnect_twice:
  assumes "kdbus_ns_disconnect s n = Return s'"
  shows "kdbus_ns_disconnect s' n = Return s'"
    and "\<exists>ns'. nss s' n = Some ns' \<and> ns_disconnected ns'"
proof -
  from assms have "\<exists>ns'. nss s' n = Some ns' \<and> ns_disconnected ns'"
    by (auto simp: kdbus_ns_disconnect_def Let_def call_def
        split: option.splits if_splits outcome.splits)
  then show "\<exists>ns'. nss s' n = Some ns' \<and> ns_disconnected ns'" .
  then show "kdbus_ns_disconnect s' n = Return s'" by (auto simp: kdbus_ns_disconnect_again)
qed

text \<open>
  Claim C9, at the initial namespace with the bus \<^verbatim>\<open>1000-test\<close> on its list:
  \<^verbatim>\<open>kdbus_ns_disconnect\<close> returns with the namespace disconnected and off
  \<^verbatim>\<open>namespace_list\<close>, its control device unregistered and its major given back, and
  with the bus as it was: on the list of the namespace, not disconnected, its endpoint
  neither disconnected nor released. The buses of a namespace are not torn down.
\<close>

theorem kdbus_ns_disconnect_leaves_buses:
  "map_option bus_list (nss s_bus 1) = Some [3]
   \<and> map_option bus_disconnected (buses s_bus 3) = Some False
   \<and> (case kdbus_ns_disconnect s_bus 1 of
        Fault \<Rightarrow> False
      | Return s' \<Rightarrow>
          map_option ns_disconnected (nss s' 1) = Some True
          \<and> namespace_list s' = []
          \<and> calls s' = calls s_bus @ [Device_unregister 2, Unregister_chrdev KDBUS_CHAR_MAJOR]
          \<and> map_option bus_list (nss s' 1) = Some [3]
          \<and> map_option bus_disconnected (buses s' 3) = Some False
          \<and> map_option ep_list (buses s' 3) = Some [5])"
  by code_simp

text \<open>
  Scenario S8 of the specification: the last reference to that namespace is released. The
  namespace is freed; the bus stays allocated and not disconnected, and points to the
  freed namespace.
\<close>

lemma kdbus_ns_unref_leaves_buses:
  "(case kdbus_ns_unref s_bus 1 of
      Fault \<Rightarrow> False
    | Return s' \<Rightarrow>
        nss s' 1 = None
        \<and> map_option bus_disconnected (buses s' 3) = Some False
        \<and> map_option bus_ns (buses s' 3) = Some 1)"
  by code_simp


section \<open>Properties of the metadata object\<close>

subsection \<open>The attached flags\<close>

lemma append_item_attached:
  "attached (fst (snd (kdbus_meta_append_item st ty p))) = attached (fst st)"
  by (cases st) (auto simp: kdbus_meta_append_item_def Let_def split: option.splits prod.splits)

lemma set_data_attached [simp]: "attached (set_data meta dst bytes) = attached meta"
  by (simp add: set_data_def split: option.splits)

lemma append_item_attached':
  "kdbus_meta_append_item st ty p = (r, (meta, al)) \<Longrightarrow> attached meta = attached (fst st)"
  using append_item_attached [of st ty p] by simp

lemma append_data_attached:
  "attached (fst (snd (kdbus_meta_append_data st ty data len))) = attached (fst st)"
  by (auto simp: kdbus_meta_append_data_def split: prod.splits sum.splits option.splits
      dest: append_item_attached')

lemma append_str_attached:
  "attached (fst (snd (kdbus_meta_append_str st ty str))) = attached (fst st)"
  by (simp add: kdbus_meta_append_str_def append_data_attached)

lemma append_names_attached:
  "attached (fst (snd (append_names st es))) = attached (fst st)"
proof (induction st es rule: append_names.induct)
  case (1 st)
  show ?case by simp
next
  case (2 st flags nm es)
  show ?case
  proof -
    obtain r meta al
      where Pair: "kdbus_meta_append_item st KDBUS_ITEM_NAME (8 + (of_nat (length nm) + 1)) = (r, (meta, al))"
      by (metis surj_pair)
    show ?thesis
    proof (cases r)
      case (Inl err)
      with Pair show ?thesis by (auto dest: append_item_attached')
    next
      case (Inr item)
      with Pair 2 [of "Inr item" "(meta, al)" item meta al] show ?thesis
        by (auto dest: append_item_attached')
    qed
  qed
qed

text \<open>No block of \<^verbatim>\<open>kdbus_meta_append\<close> touches \<^verbatim>\<open>meta->attached\<close>.\<close>

lemma keeps_attached_blocks:
  "\<forall>b \<in> set (append_blocks env conn seq msk). keeps_attached (snd b)"
proof -
  have alloc: "keeps_attached (\<lambda>st. case alloc (snd st) of (None, al') \<Rightarrow> (e, (fst st, al'))
      | (Some page, al') \<Rightarrow> f (fst st, al'))" if "keeps_attached f" for e f
    using that by (auto simp: keeps_attached_def split: prod.splits option.splits)
  have "keeps_attached (\<lambda>st. kdbus_meta_append_timestamp env st seq)"
    by (auto simp: keeps_attached_def kdbus_meta_append_timestamp_def Let_def
        split: prod.splits sum.splits dest: append_item_attached')
  moreover have "keeps_attached (kdbus_meta_append_cred env)"
    by (simp add: keeps_attached_def kdbus_meta_append_cred_def append_data_attached)
  moreover have "keeps_attached (kdbus_meta_append_auxgroups env)"
    by (auto simp: keeps_attached_def kdbus_meta_append_auxgroups_def
        split: prod.splits sum.splits dest: append_item_attached')
  moreover have "keeps_attached (\<lambda>st. kdbus_meta_append_src_names st conn)"
    by (auto simp: keeps_attached_def kdbus_meta_append_src_names_def append_names_attached
        split: option.splits)
  moreover have "keeps_attached (kdbus_meta_append_comm env)"
    using append_str_attached
    by (auto simp: keeps_attached_def kdbus_meta_append_comm_def split: prod.splits; metis fst_conv snd_conv)
  moreover have "keeps_attached (kdbus_meta_append_exe env)"
    using append_data_attached
    by (auto simp: keeps_attached_def kdbus_meta_append_exe_def
        split: prod.splits option.splits sum.splits; metis fst_conv snd_conv)
  moreover have "keeps_attached (kdbus_meta_append_cmdline env)"
    using append_data_attached
    by (auto simp: keeps_attached_def kdbus_meta_append_cmdline_def Let_def
        split: prod.splits option.splits; metis fst_conv snd_conv)
  moreover have "keeps_attached (kdbus_meta_append_caps env)"
    by (simp add: keeps_attached_def kdbus_meta_append_caps_def append_data_attached)
  moreover have "keeps_attached (kdbus_meta_append_cgroup env)"
    using append_str_attached
    by (auto simp: keeps_attached_def kdbus_meta_append_cgroup_def
        split: prod.splits option.splits; metis fst_conv snd_conv)
  moreover have "keeps_attached (kdbus_meta_append_audit env)"
    by (simp add: keeps_attached_def kdbus_meta_append_audit_def append_data_attached)
  moreover have "keeps_attached (kdbus_meta_append_seclabel env)"
    by (auto simp: keeps_attached_def kdbus_meta_append_seclabel_def append_data_attached
        split: option.splits)
  moreover have "keeps_attached (\<lambda>st. kdbus_meta_append_str st ty str)" for ty str
    by (simp add: keeps_attached_def append_str_attached)
  ultimately show ?thesis by (simp add: append_blocks_def)
qed

lemma run_appends_attached:
  "\<forall>b \<in> set blocks. keeps_attached (snd b) \<Longrightarrow>
   attached (fst (snd (run_appends blocks st))) = attached (fst st)"
proof (induction blocks st rule: run_appends.induct)
  case (1 st)
  show ?case by simp
next
  case (2 cond f blocks st)
  from 2(3) have f: "attached (fst (snd (f st))) = attached (fst st)"
    by (cases st) (simp add: keeps_attached_def)
  show ?case
  proof (cases cond)
    case False
    with 2 show ?thesis by simp
  next
    case True
    obtain ret st' where r: "f st = (ret, st')" by (cases "f st")
    with f have a: "attached (fst st') = attached (fst st)" by simp
    show ?thesis
    proof (cases "ret < 0")
      case neg: True
      with True r a show ?thesis by simp
    next
      case nonneg: False
      with 2(1) [OF True r [symmetric] nonneg] 2(3) True r a show ?thesis by simp
    qed
  qed
qed

text \<open>
  What a call of \<^verbatim>\<open>kdbus_meta_append\<close> does to \<^verbatim>\<open>meta->attached\<close>: on success
  all wanted bits are set, on failure nothing changes.
\<close>

lemma kdbus_meta_append_attached:
  assumes "kdbus_meta_append env st conn seq which = (ret, st')"
  shows "ret \<le> 0"
    and "ret = 0 \<Longrightarrow> attached (fst st') = attached (fst st) OR which"
    and "ret < 0 \<Longrightarrow> attached (fst st') = attached (fst st)"
proof -
  let ?msk = "which AND NOT (attached (fst st))"
  have or: "attached (fst st) OR ?msk = attached (fst st) OR which"
    by (simp add: bit_eq_iff bit_simps) blast
  show "ret \<le> 0" "ret = 0 \<Longrightarrow> attached (fst st') = attached (fst st) OR which"
    "ret < 0 \<Longrightarrow> attached (fst st') = attached (fst st)"
  proof (atomize (full), cases "?msk = 0")
    case True
    with assms have "ret = 0" "st' = st" by (simp_all add: kdbus_meta_append_def)
    moreover from True or have "attached (fst st) OR which = attached (fst st)"
      by (metis or.right_neutral)
    ultimately show "ret \<le> 0 \<and> (ret = 0 \<longrightarrow> attached (fst st') = attached (fst st) OR which)
        \<and> (ret < 0 \<longrightarrow> attached (fst st') = attached (fst st))" by simp
  next
    case False
    obtain r meta al where run: "run_appends (append_blocks env conn seq ?msk) st = (r, (meta, al))"
      by (metis surj_pair)
    have a: "attached meta = attached (fst st)"
      using run_appends_attached [OF keeps_attached_blocks, of env conn seq ?msk st] run by simp
    from assms False run have "(ret, st') = (if r < 0 then (r, (meta, al))
        else (0, (meta\<lparr>attached := attached meta OR ?msk\<rparr>, al)))"
      by (simp add: kdbus_meta_append_def Let_def)
    with a or show "ret \<le> 0 \<and> (ret = 0 \<longrightarrow> attached (fst st') = attached (fst st) OR which)
        \<and> (ret < 0 \<longrightarrow> attached (fst st') = attached (fst st))"
      by (auto split: if_splits)
  qed
qed

text \<open>
  Claim C4. After a call of \<^verbatim>\<open>kdbus_meta_append\<close> that returned 0, a second call for
  the same flags returns 0 and leaves the object as it is (its buffer, its sizes and
  \<^verbatim>\<open>attached\<close>), whatever the task, the connection, the sequence number and the
  allocator then are; it allocates nothing.
\<close>

theorem kdbus_meta_append_idempotent:
  assumes "kdbus_meta_append env (meta, al) conn seq which = (0, (meta', al'))"
  shows "kdbus_meta_append env2 (meta', al2) conn2 seq2 which = (0, (meta', al2))"
proof -
  from kdbus_meta_append_attached(2) [OF assms]
  have "attached meta' = attached meta OR which" by simp
  then have "which AND NOT (attached meta') = 0"
    by (simp add: bit_eq_iff bit_simps)
  then show ?thesis by (simp add: kdbus_meta_append_def)
qed

text \<open>
  Scenario S6: two calls for \<^verbatim>\<open>CREDS|COMM\<close> on an empty object leave one credentials
  item and the two command-name items, 104 bytes, and both flags set.
\<close>

theorem kdbus_meta_append_idempotent_witness:
  "view (kdbus_meta_append env0 (meta0, al0) None 42 (KDBUS_ATTACH_CREDS OR KDBUS_ATTACH_COMM))
     = (0, 104, 512, KDBUS_ATTACH_CREDS OR KDBUS_ATTACH_COMM,
        Some [(KDBUS_ITEM_CREDS, 56), (KDBUS_ITEM_TID_COMM, 21), (KDBUS_ITEM_PID_COMM, 21)])
   \<and> kdbus_meta_append env0
        (snd (kdbus_meta_append env0 (meta0, al0) None 42 (KDBUS_ATTACH_CREDS OR KDBUS_ATTACH_COMM)))
        None 42 (KDBUS_ATTACH_CREDS OR KDBUS_ATTACH_COMM)
     = (0, snd (kdbus_meta_append env0 (meta0, al0) None 42 (KDBUS_ATTACH_CREDS OR KDBUS_ATTACH_COMM)))"
proof -
  let ?r = "kdbus_meta_append env0 (meta0, al0) None 42 (KDBUS_ATTACH_CREDS OR KDBUS_ATTACH_COMM)"
  have v: "view ?r = (0, 104, 512, KDBUS_ATTACH_CREDS OR KDBUS_ATTACH_COMM,
        Some [(KDBUS_ITEM_CREDS, 56), (KDBUS_ITEM_TID_COMM, 21), (KDBUS_ITEM_PID_COMM, 21)])"
    by code_simp
  then have "fst ?r = 0" by (simp add: view_def)
  then obtain meta' al' where r: "?r = (0, (meta', al'))" by (metis prod.collapse)
  from kdbus_meta_append_idempotent [OF r, of env0 al' None 42] r v show ?thesis by simp
qed

subsection \<open>Words and bytes\<close>

lemma seven_mask: "(7 :: u64) = mask 3"
  by (simp add: mask_eq_exp_minus_1)

lemma and_not_7: "(x :: u64) AND NOT 7 = push_bit 3 (drop_bit 3 x)"
  unfolding seven_mask
  by (rule bit_word_eqI) (auto simp: bit_simps)

lemma unat_and_not_7: "unat ((x :: u64) AND NOT 7) = unat x div 8 * 8"
proof -
  have "unat (push_bit 3 (drop_bit 3 x)) = take_bit 64 (push_bit 3 (drop_bit 3 (unat x)))"
    by (simp add: unsigned_push_bit_eq unat_drop_bit_eq)
  also have "push_bit 3 (drop_bit 3 (unat x)) = unat x div 8 * 8"
    by (simp add: push_bit_eq_mult drop_bit_eq_div)
  also have "take_bit 64 (unat x div 8 * 8) = unat x div 8 * 8"
  proof -
    have "unat x < 2 ^ 64" using unsigned_less [of x] by simp
    then have "unat x div 8 * 8 < 2 ^ 64" by simp
    then show ?thesis by (simp add: take_bit_nat_eq_self)
  qed
  finally show ?thesis unfolding and_not_7 .
qed

lemma unat_ITEM_SIZE:
  assumes "unat p + 23 < 2 ^ 64"
  shows "unat (KDBUS_ITEM_SIZE p) = (unat p + 23) div 8 * 8"
proof -
  have "unat (p + 16 + 7) = unat p + 23"
    using assms by (simp add: unat_word_ariths)
  moreover have "KDBUS_ITEM_SIZE p = (p + 16 + 7) AND NOT 7"
    by (simp only: KDBUS_ITEM_SIZE_def KDBUS_ALIGN8_def KDBUS_ITEM_HEADER_SIZE_def)
  ultimately show ?thesis by (simp only: unat_and_not_7)
qed

lemma low_byte: "ucast (ucast w :: u8) + push_bit 8 (drop_bit 8 w) = (w :: u64)"
proof -
  have "(ucast (ucast w :: u8) :: u64) = take_bit 8 w"
    by (rule bit_word_eqI) (auto simp: bit_simps)
  then show ?thesis by (metis bits_ident add.commute)
qed

lemma high_byte: "ucast (ucast (drop_bit 56 w) :: u8) = (drop_bit 56 w :: u64)"
  by (rule bit_word_eqI) (auto simp: bit_simps dest: bit_imp_le_length)

lemma le_u64_bytes: "le_u64 (u64_bytes v) = v"
proof -
  have s: "ucast (ucast (drop_bit k v) :: u8) + push_bit 8 (drop_bit (k + 8) v) = drop_bit k v" for k
    using low_byte [of "drop_bit k v"] by (simp add: drop_bit_drop_bit add.commute)
  have "le_u64 (u64_bytes v) =
      ucast (ucast v :: u8) + push_bit 8 (
      ucast (ucast (drop_bit 8 v) :: u8) + push_bit 8 (
      ucast (ucast (drop_bit 16 v) :: u8) + push_bit 8 (
      ucast (ucast (drop_bit 24 v) :: u8) + push_bit 8 (
      ucast (ucast (drop_bit 32 v) :: u8) + push_bit 8 (
      ucast (ucast (drop_bit 40 v) :: u8) + push_bit 8 (
      ucast (ucast (drop_bit 48 v) :: u8) + push_bit 8 (drop_bit 56 v)))))))"
    by (simp add: u64_bytes_def high_byte)
  also have "\<dots> = v"
    using s [of 48] s [of 40] s [of 32] s [of 24] s [of 16] s [of 8] s [of 0]
    by simp
  finally show ?thesis .
qed

lemma fls_long_gt: "n < 2 ^ fls_long n"
proof (induction n rule: fls_long.induct)
  case (1 n)
  show ?case
  proof (cases "n = 0")
    case True
    then show ?thesis by (simp add: fls_long.simps)
  next
    case False
    with 1 have "n div 2 < 2 ^ fls_long (n div 2)" by simp
    then have "n < 2 * 2 ^ fls_long (n div 2)" by linarith
    with False show ?thesis by (subst fls_long.simps) simp
  qed
qed

lemma fls_long_le: "n < 2 ^ j \<Longrightarrow> fls_long n \<le> j"
proof (induction n arbitrary: j rule: fls_long.induct)
  case (1 n)
  show ?case
  proof (cases "n = 0")
    case True
    then show ?thesis by (simp add: fls_long.simps)
  next
    case False
    with 1(2) obtain i where j: "j = Suc i" by (cases j) auto
    with 1(2) have "n div 2 < 2 ^ i" by simp
    with 1(1) [OF False] have "fls_long (n div 2) \<le> i" by simp
    with False j show ?thesis by (subst fls_long.simps) simp
  qed
qed

lemma roundup_pow_of_two_ge:
  assumes "0 < unat n" and "unat n \<le> 2 ^ 63"
  shows "n \<le> roundup_pow_of_two n"
proof -
  let ?k = "fls_long (unat (n - 1))"
  have n1: "unat (n - 1) = unat n - 1"
  proof -
    from assms(1) have "n \<noteq> 0" by auto
    then show ?thesis by (simp add: unat_minus_one)
  qed
  with assms have "unat (n - 1) < 2 ^ 63" by simp
  then have k: "?k \<le> 63" by (rule fls_long_le)
  have "unat (n - 1) < 2 ^ ?k" by (rule fls_long_gt)
  with n1 have le: "unat n \<le> 2 ^ ?k" by simp
  have "unat (push_bit ?k (1 :: u64)) = 2 ^ ?k"
  proof -
    have "(2 :: nat) ^ ?k < 2 ^ 64" using k by (intro power_strict_increasing) simp_all
    moreover have "push_bit ?k (1 :: u64) = of_nat (2 ^ ?k)" by (simp add: push_bit_eq_mult)
    ultimately show ?thesis by (simp only: unat_of_nat) simp
  qed

  with le show ?thesis by (simp add: roundup_pow_of_two_def word_le_nat_alt)
qed

lemma write_bytes_outside:
  assumes "unat a < unat dst \<or> unat dst + length bytes \<le> unat a"
    and "unat dst + length bytes \<le> 2 ^ 64"
  shows "write_bytes mem dst bytes a = mem a"
proof -
  have l: "unat (of_nat (length bytes) :: u64) \<le> length bytes"
    by (simp add: unat_of_nat)
  have a: "unat a < 2 ^ 64" using unsigned_less [of a] by simp
  have "unat (of_nat (length bytes) :: u64) \<le> unat (a - dst)"
  proof (cases "unat a < unat dst")
    case True
    then have "unat (a - dst) = 2 ^ 64 + unat a - unat dst"
      by (simp add: unat_sub_if')
    with assms(2) l show ?thesis by simp
  next
    case False
    with assms(1) have le: "unat dst + length bytes \<le> unat a" by simp
    then have "unat (a - dst) = unat a - unat dst"
      by (simp add: unat_sub_if')
    with le l show ?thesis by simp
  qed
  then have "\<not> a - dst < of_nat (length bytes)"
    by (simp add: word_less_nat_alt)
  then show ?thesis by (simp add: write_bytes_def)
qed

lemma load_u64_cong:
  assumes "\<And>k. k < 8 \<Longrightarrow> mem' (a + of_nat k) = mem (a + of_nat k)"
  shows "load_u64 mem' a = load_u64 mem a"
  using assms [of 0] assms [of 1] assms [of 2] assms [of 3] assms [of 4] assms [of 5]
    assms [of 6] assms [of 7]
  by (simp add: load_u64_def)

lemma unat_add_of_nat_le: "unat (a + of_nat k :: u64) \<le> unat a + k"
proof -
  have "unat (a + of_nat k :: u64) \<le> unat a + unat (of_nat k :: u64)"
    by (simp add: unat_word_ariths)
  moreover have "unat (of_nat k :: u64) \<le> k" by (simp add: unat_of_nat)
  ultimately show ?thesis by simp
qed

lemma load_u64_agree:
  assumes "\<And>b. unat b < n \<Longrightarrow> mem' b = mem b" and "unat a + 8 \<le> n"
  shows "load_u64 mem' a = load_u64 mem a"
proof (rule load_u64_cong)
  fix k :: nat
  assume "k < 8"
  with unat_add_of_nat_le [of a k] assms(2) have "unat (a + of_nat k) < n" by simp
  then show "mem' (a + of_nat k) = mem (a + of_nat k)" by (rule assms(1))
qed

lemma load_store_same: "load_u64 (store_u64 mem a v) a = v"
proof -
  have "load_u64 (store_u64 mem a v) a = le_u64 (u64_bytes v)"
    by (simp add: load_u64_def store_u64_def write_bytes_def u64_bytes_def)
  then show ?thesis by (simp add: le_u64_bytes)
qed

lemma length_u64_bytes [simp]: "length (u64_bytes v) = 8"
  by (simp add: u64_bytes_def)

lemma unat_of_nat_le: "unat (of_nat n :: u64) \<le> n"
  by (simp add: unat_of_nat)

lemma parse_items_le: "parse_items mem off e = Some xs \<Longrightarrow> off \<le> e"
  by (subst (asm) parse_items.simps) (simp split: if_splits)

lemma parse_items_Nil: "parse_items mem off e = Some [] \<longleftrightarrow> off = e"
  by (subst parse_items.simps) (auto simp: Let_def)

lemma parse_items_same [simp]: "parse_items mem e e = Some []"
  by (simp add: parse_items_Nil)

lemma parse_items_step:
  assumes "off < e"
  shows "parse_items mem off e = Some xs \<longleftrightarrow>
    (\<exists>rest. xs = (load_u64 mem (of_nat off + 8), load_u64 mem (of_nat off)) # rest
      \<and> 16 \<le> load_u64 mem (of_nat off) \<and> off mod 8 = 0
      \<and> off + 16 \<le> off + (unat (load_u64 mem (of_nat off)) + 7) div 8 * 8
      \<and> off + (unat (load_u64 mem (of_nat off)) + 7) div 8 * 8 \<le> e
      \<and> parse_items mem (off + (unat (load_u64 mem (of_nat off)) + 7) div 8 * 8) e = Some rest)"
proof -
  let ?sz = "load_u64 mem (of_nat off)"
  have sz: "16 \<le> unat ?sz" if "16 \<le> ?sz"
    using that by (simp add: word_le_nat_alt)
  have "off + 16 \<le> off + (unat ?sz + 7) div 8 * 8" if "16 \<le> ?sz"
    using sz [OF that] by simp
  with assms show ?thesis
    by (subst parse_items.simps) (auto simp: Let_def not_less dest: parse_items_le)
qed

lemma parse_items_agree:
  assumes "parse_items mem off e = Some xs" and "\<And>b. unat b < e \<Longrightarrow> mem' b = mem b"
  shows "parse_items mem' off e = Some xs"
  using assms
proof (induction mem off e arbitrary: xs rule: parse_items.induct)
  case (1 mem off e)
  from 1(2) have le: "off \<le> e" by (rule parse_items_le)
  show ?case
  proof (cases "off = e")
    case True
    with 1(2) show ?thesis by simp
  next
    case False
    with le have lt: "off < e" by simp
    let ?sz = "load_u64 mem (of_nat off)"
    let ?next = "off + (unat ?sz + 7) div 8 * 8"
    from 1(2) lt obtain rest where xs: "xs = (load_u64 mem (of_nat off + 8), ?sz) # rest"
      and sz: "16 \<le> ?sz" and al: "off mod 8 = 0" and n16: "off + 16 \<le> ?next" and ne: "?next \<le> e"
      and rest: "parse_items mem ?next e = Some rest"
      by (auto simp: parse_items_step)
    have s: "load_u64 mem' (of_nat off) = ?sz"
      using 1(3) unat_of_nat_le [of off] n16 ne by (intro load_u64_agree [where n = e]) auto
    have "unat (of_nat off + 8 :: u64) \<le> off + 8"
      using unat_add_of_nat_le [of "of_nat off" 8] unat_of_nat_le [of off] by simp
    then have t: "load_u64 mem' (of_nat off + 8) = load_u64 mem (of_nat off + 8)"
      using 1(3) n16 ne by (intro load_u64_agree [where n = e]) auto
    have "parse_items mem' ?next e = Some rest"
      using False lt sz al rest 1(3) by (intro 1(1)) (auto simp: not_less)
    with s t xs sz al n16 ne lt show ?thesis by (simp add: parse_items_step)
  qed
qed

lemma parse_items_append:
  assumes "parse_items mem off e = Some xs" and "parse_items mem e e2 = Some ys"
  shows "parse_items mem off e2 = Some (xs @ ys)"
  using assms
proof (induction mem off e arbitrary: xs rule: parse_items.induct)
  case (1 mem off e)
  from 1(2) have le: "off \<le> e" by (rule parse_items_le)
  from 1(3) have le2: "e \<le> e2" by (rule parse_items_le)
  show ?case
  proof (cases "off = e")
    case True
    with 1(2,3) show ?thesis by simp
  next
    case False
    with le have lt: "off < e" by simp
    let ?sz = "load_u64 mem (of_nat off)"
    let ?next = "off + (unat ?sz + 7) div 8 * 8"
    from 1(2) lt obtain rest where xs: "xs = (load_u64 mem (of_nat off + 8), ?sz) # rest"
      and sz: "16 \<le> ?sz" and al: "off mod 8 = 0" and n16: "off + 16 \<le> ?next" and ne: "?next \<le> e"
      and rest: "parse_items mem ?next e = Some rest"
      by (auto simp: parse_items_step)
    have "parse_items mem ?next e2 = Some (rest @ ys)"
      using False lt sz al rest 1(3) by (intro 1(1)) (auto simp: not_less)
    moreover from lt le2 have "off < e2" by simp
    ultimately show ?thesis using xs sz al n16 ne le2 by (simp add: parse_items_step)
  qed
qed

lemma parse_items_single:
  assumes "load_u64 mem (of_nat off) = sz" and "load_u64 mem (of_nat off + 8) = ty"
    and "16 \<le> sz" and "off mod 8 = 0"
  shows "parse_items mem off (off + (unat sz + 7) div 8 * 8) = Some [(ty, sz)]"
proof -
  from assms(3) have "16 \<le> unat sz" by (simp add: word_le_nat_alt)
  then have "off < off + (unat sz + 7) div 8 * 8" "2 \<le> (unat sz + 7) div 8" by simp_all
  then show ?thesis using assms by (simp add: parse_items_step)
qed

lemma parse_items_last:
  assumes "parse_items mem off e = Some (xs @ [(ty, sz)])"
  shows "\<exists>mid. parse_items mem off mid = Some xs \<and> mid mod 8 = 0 \<and> 16 \<le> sz
      \<and> load_u64 mem (of_nat mid) = sz \<and> load_u64 mem (of_nat mid + 8) = ty
      \<and> e = mid + (unat sz + 7) div 8 * 8"
  using assms
proof (induction mem off e arbitrary: xs rule: parse_items.induct)
  case (1 mem off e)
  from 1(2) have "off \<noteq> e" by auto
  with parse_items_le [OF 1(2)] have lt: "off < e" by simp
  let ?sz = "load_u64 mem (of_nat off)"
  let ?next = "off + (unat ?sz + 7) div 8 * 8"
  from 1(2) lt obtain rest where xs: "xs @ [(ty, sz)] = (load_u64 mem (of_nat off + 8), ?sz) # rest"
    and sz: "16 \<le> ?sz" and al: "off mod 8 = 0" and n16: "off + 16 \<le> ?next" and ne: "?next \<le> e"
    and rest: "parse_items mem ?next e = Some rest"
    by (auto simp: parse_items_step)
  show ?case
  proof (cases xs)
    case Nil
    with xs have "rest = []" and e: "load_u64 mem (of_nat off + 8) = ty" "?sz = sz" by simp_all
    with rest have "?next = e" by (simp add: parse_items_Nil)
    with Nil e sz al show ?thesis
      by (intro exI [of _ off]) (simp add: parse_items_Nil)
  next
    case (Cons x xs')
    with xs have x: "x = (load_u64 mem (of_nat off + 8), ?sz)" and r: "rest = xs' @ [(ty, sz)]"
      by simp_all
    have "\<exists>mid. parse_items mem ?next mid = Some xs' \<and> mid mod 8 = 0 \<and> 16 \<le> sz
      \<and> load_u64 mem (of_nat mid) = sz \<and> load_u64 mem (of_nat mid + 8) = ty
      \<and> e = mid + (unat sz + 7) div 8 * 8"
      using lt sz al rest r by (intro 1(1)) (auto simp: not_less)
    then obtain mid where mid: "parse_items mem ?next mid = Some xs'" "mid mod 8 = 0" "16 \<le> sz"
      "load_u64 mem (of_nat mid) = sz" "load_u64 mem (of_nat mid + 8) = ty"
      "e = mid + (unat sz + 7) div 8 * 8" by (elim exE conjE) (rule that)
    from parse_items_le [OF mid(1)] n16 have "off < mid" by simp
    then have "parse_items mem off mid = Some (x # xs')"
      using x sz al n16 mid(1) parse_items_le [OF mid(1)] by (simp add: parse_items_step)
    with Cons mid show ?thesis by (intro exI [of _ mid]) simp
  qed
qed

text \<open>Bytes written behind the header of the last item leave the row of items as it is.\<close>

lemma parse_items_write_payload:
  assumes "parse_items buf 0 e = Some (xs @ [(ty, sz)])"
    and "e + 16 \<le> unat dst + (unat sz + 7) div 8 * 8"
    and "unat dst + length bytes \<le> 2 ^ 64"
  shows "parse_items (write_bytes buf dst bytes) 0 e = Some (xs @ [(ty, sz)])"
proof -
  let ?buf = "write_bytes buf dst bytes"
  from parse_items_last [OF assms(1)] obtain mid where mid: "parse_items buf 0 mid = Some xs"
    "mid mod 8 = 0" "16 \<le> sz" "load_u64 buf (of_nat mid) = sz" "load_u64 buf (of_nat mid + 8) = ty"
    "e = mid + (unat sz + 7) div 8 * 8" by (elim exE conjE) (rule that)
  from mid(6) assms(2) have dst: "mid + 16 \<le> unat dst" by simp
  have same: "?buf b = buf b" if "unat b < mid + 16" for b
  proof (rule write_bytes_outside [OF _ assms(3)])
    from that dst show "unat b < unat dst \<or> unat dst + length bytes \<le> unat b" by simp
  qed
  have xs: "parse_items ?buf 0 mid = Some xs"
  proof (rule parse_items_agree [OF mid(1)])
    fix b :: u64
    assume "unat b < mid"
    then show "?buf b = buf b" by (intro same) simp
  qed
  have "load_u64 ?buf (of_nat mid) = load_u64 buf (of_nat mid)"
  proof (rule load_u64_agree [where n = "mid + 16"])
    show "unat (of_nat mid :: u64) + 8 \<le> mid + 16"
      using unat_of_nat_le [of mid] by simp
    show "?buf b = buf b" if "unat b < mid + 16" for b
      using that by (rule same)
  qed
  with mid(4) have s: "load_u64 ?buf (of_nat mid) = sz" by simp
  have "load_u64 ?buf (of_nat mid + 8) = load_u64 buf (of_nat mid + 8)"
  proof (rule load_u64_agree [where n = "mid + 16"])
    show "unat (of_nat mid + 8 :: u64) + 8 \<le> mid + 16"
      using unat_add_of_nat_le [of "of_nat mid" 8] unat_of_nat_le [of mid] by simp
    show "?buf b = buf b" if "unat b < mid + 16" for b
      using that by (rule same)
  qed
  with mid(5) have t: "load_u64 ?buf (of_nat mid + 8) = ty" by simp
  have "parse_items ?buf mid (mid + (unat sz + 7) div 8 * 8) = Some [(ty, sz)]"
    using s t mid(3) mid(2) by (rule parse_items_single)
  from parse_items_append [OF xs this] mid(6) show ?thesis by simp
qed

subsection \<open>The invariant of the buffer\<close>

lemma and_7_iff: "(s :: u64) AND 7 = 0 \<longleftrightarrow> unat s mod 8 = 0"
proof -
  have "s AND 7 = take_bit 3 s" by (simp add: take_bit_eq_mask seven_mask)
  then have "unat (s AND 7) = unat s mod 8"
    by (simp add: take_bit_eq_mod unat_mod)
  then show ?thesis by (metis unat_eq_zero)
qed

lemma grown_agree: "unat b < unat used \<Longrightarrow> grown old got used a n b = old b"
  by (simp add: grown_def word_less_nat_alt)

lemma store_u64_outside:
  assumes "unat a < unat dst \<or> unat dst + 8 \<le> unat a" and "unat dst + 8 \<le> 2 ^ 64"
  shows "store_u64 mem dst v a = mem a"
  using assms by (simp add: store_u64_def write_bytes_outside)

text \<open>The header of a new item behind a row of items.\<close>

lemma parse_items_header:
  assumes xs: "parse_items buf 0 (unat s) = Some xs" and al: "unat s mod 8 = 0"
    and fit: "unat s + unat p + 23 < 2 ^ 64"
  shows "parse_items (store_u64 (store_u64 buf (s + 8) ty) s (16 + p)) 0
           (unat s + (unat p + 23) div 8 * 8) = Some (xs @ [(ty, 16 + p)])"
proof -
  let ?buf = "store_u64 (store_u64 buf (s + 8) ty) s (16 + p)"
  have s8: "unat (s + 8) = unat s + 8"
    using fit by (simp add: unat_word_ariths)
  have p16: "unat (16 + p) = unat p + 16"
    using fit by (simp add: unat_word_ariths)
  have below: "?buf b = buf b" if "unat b < unat s" for b
    using that fit s8 by (simp add: store_u64_outside)
  have xs': "parse_items ?buf 0 (unat s) = Some xs"
    using xs below by (rule parse_items_agree)
  have sz: "load_u64 ?buf (of_nat (unat s)) = 16 + p"
    by (simp add: load_store_same)
  have "load_u64 ?buf (s + 8) = load_u64 (store_u64 buf (s + 8) ty) (s + 8)"
  proof (rule load_u64_cong)
    fix k :: nat
    assume k: "k < 8"
    have "unat (s + 8 + of_nat k) = unat s + 8 + k"
      using fit k s8 by (simp add: unat_word_ariths unat_of_nat)
    then show "?buf (s + 8 + of_nat k) = store_u64 buf (s + 8) ty (s + 8 + of_nat k)"
      using fit by (simp add: store_u64_outside)
  qed
  then have ty: "load_u64 ?buf (of_nat (unat s) + 8) = ty"
    by (simp add: load_store_same)
  have "16 \<le> 16 + p"
    using p16 by (simp add: word_le_nat_alt)
  with sz ty have "parse_items ?buf (unat s) (unat s + (unat (16 + p) + 7) div 8 * 8) = Some [(ty, 16 + p)]"
    using al by (intro parse_items_single) simp_all
  from parse_items_append [OF xs' this] p16 show ?thesis by (simp add: add.commute)
qed

lemma meta_items_Some_data:
  assumes "meta_items m = Some xs" and "meta_data m = None"
  shows "meta_size m = 0" and "xs = []"
  using assms by (auto simp: meta_items_def split: if_splits)

text \<open>The last step of \<^verbatim>\<open>kdbus_meta_append_item\<close>: insert the new record.\<close>

lemma append_item_insert:
  assumes xs: "parse_items buf 0 (unat (meta_size meta)) = Some xs"
    and al: "meta_size meta AND 7 = 0"
    and fit: "unat (meta_size meta) + unat p + 23 < 2 ^ 64"
    and alloc: "meta_size meta + KDBUS_ITEM_SIZE p \<le> allocated_size meta"
    and m': "m' = meta\<lparr>meta_data := Some (store_u64 (store_u64 buf (meta_size meta + 8) ty)
        (meta_size meta) (KDBUS_ITEM_HEADER_SIZE + p)), meta_size := meta_size meta + KDBUS_ITEM_SIZE p\<rparr>"
  shows "meta_items m' = Some (xs @ [(ty, 16 + p)])"
    and "unat (meta_size m') = unat (meta_size meta) + (unat p + 23) div 8 * 8"
    and "meta_inv m'"
proof -
  have p: "unat p + 23 < 2 ^ 64" using fit by simp
  have e: "unat (KDBUS_ITEM_SIZE p) = (unat p + 23) div 8 * 8" by (rule unat_ITEM_SIZE [OF p])
  have "unat (meta_size meta) + unat (KDBUS_ITEM_SIZE p) < 2 ^ 64"
    using fit e by simp
  then have "unat (meta_size meta + KDBUS_ITEM_SIZE p) = unat (meta_size meta) + unat (KDBUS_ITEM_SIZE p)"
    by (simp add: unat_word_ariths)
  with e m' show size: "unat (meta_size m') = unat (meta_size meta) + (unat p + 23) div 8 * 8"
    by simp
  from al have al8: "unat (meta_size meta) mod 8 = 0" by (simp add: and_7_iff)
  from parse_items_header [OF xs al8 fit, of ty] size m'
  show items: "meta_items m' = Some (xs @ [(ty, 16 + p)])"
    by (simp add: meta_items_def KDBUS_ITEM_HEADER_SIZE_def)
  from size al8 have "unat (meta_size m') mod 8 = 0" by simp
  then have "meta_size m' AND 7 = 0" by (simp add: and_7_iff)
  with items alloc m' show "meta_inv m'" by (simp add: meta_inv_def)
qed

lemma append_item_Inr:
  assumes r: "kdbus_meta_append_item (m, al) ty p = (Inr item, (m', al'))"
    and inv: "meta_inv m" and items: "meta_items m = Some xs"
    and fit: "unat (meta_size m) + unat p + 279 \<le> 2 ^ 63"
  shows "item = meta_size m"
    and "meta_items m' = Some (xs @ [(ty, 16 + p)])"
    and "unat (meta_size m') = unat (meta_size m) + (unat p + 23) div 8 * 8"
    and "meta_inv m'"
proof -
  let ?extra = "KDBUS_ITEM_SIZE p"
  let ?zero = "(\<lambda>_. 0) :: memory"
  have fit64: "unat (meta_size m) + unat p + 23 < 2 ^ 64" using fit by simp
  have e: "unat ?extra = (unat p + 23) div 8 * 8"
    using fit by (intro unat_ITEM_SIZE) simp
  then have e_le: "unat ?extra \<le> unat p + 23" and e_ge: "16 \<le> unat ?extra" by simp_all
  have sum: "unat (meta_size m + ?extra) = unat (meta_size m) + unat ?extra"
    using fit e_le by (simp add: unat_word_ariths)
  have sum256: "unat (256 + ?extra) = 256 + unat ?extra"
    using fit e_le by (simp add: unat_word_ariths)
  have r256: "256 + ?extra \<le> roundup_pow_of_two (256 + ?extra)"
    using fit e_le sum256 by (intro roundup_pow_of_two_ge) simp_all
  have rsum: "meta_size m + ?extra \<le> roundup_pow_of_two (meta_size m + ?extra)"
    using fit e_le e_ge sum by (intro roundup_pow_of_two_ge) simp_all
  from inv have al8: "meta_size m AND 7 = 0" and le: "meta_size m \<le> allocated_size m"
    by (simp_all add: meta_inv_def)
  have "item = meta_size m \<and> meta_items m' = Some (xs @ [(ty, 16 + p)])
      \<and> unat (meta_size m') = unat (meta_size m) + (unat p + 23) div 8 * 8 \<and> meta_inv m'"
  proof (cases "meta_data m")
    case None
    with items have s0: "meta_size m = 0" and xs: "xs = []"
      by (simp_all add: meta_items_Some_data)
    obtain x al1 where a: "alloc al = (x, al1)" by (cases "alloc al")
    show ?thesis
    proof (cases x)
      case no: None
      with r None a show ?thesis by (simp add: kdbus_meta_append_item_def Let_def)
    next
      case (Some got)
      let ?m1 = "m\<lparr>meta_data := Some ?zero, allocated_size := roundup_pow_of_two (256 + ?extra)\<rparr>"
      have "unat ?extra \<le> unat (256 + ?extra)" using sum256 by simp
      then have "?extra \<le> 256 + ?extra" by (simp add: word_le_nat_alt)
      with r256 have fits: "?extra \<le> roundup_pow_of_two (256 + ?extra)" by simp
      then have nogrow: "\<not> roundup_pow_of_two (256 + ?extra) < ?extra" by simp
      from r None a Some s0 nogrow
      have i: "item = meta_size m"
        and m': "m' = ?m1\<lparr>meta_data := Some (store_u64 (store_u64 ?zero (meta_size ?m1 + 8) ty)
          (meta_size ?m1) (KDBUS_ITEM_HEADER_SIZE + p)), meta_size := meta_size ?m1 + ?extra\<rparr>"
        by (auto simp: kdbus_meta_append_item_def Let_def)
      have 1: "parse_items ?zero 0 (unat (meta_size ?m1)) = Some xs" using s0 xs by simp
      have 2: "meta_size ?m1 AND 7 = 0" using al8 by simp
      have 3: "unat (meta_size ?m1) + unat p + 23 < 2 ^ 64" using fit64 by simp
      have 4: "meta_size ?m1 + ?extra \<le> allocated_size ?m1" using fits s0 by simp
      from append_item_insert [OF 1 2 3 4 m'] i show ?thesis by simp
    qed
  next
    case (Some buf)
    with items have xs: "parse_items buf 0 (unat (meta_size m)) = Some xs"
      by (simp add: meta_items_def)
    show ?thesis
    proof (cases "meta_size m + ?extra > allocated_size m")
      case grow: True
      obtain x al1 where a: "alloc al = (x, al1)" by (cases "alloc al")
      show ?thesis
      proof (cases x)
        case no: None
        with r Some a grow show ?thesis by (simp add: kdbus_meta_append_item_def Let_def)
      next
        case yes: (Some got)
        let ?new = "roundup_pow_of_two (meta_size m + ?extra)"
        let ?buf = "grown buf got (meta_size m) (allocated_size m) ?new"
        let ?m1 = "m\<lparr>meta_data := Some ?buf, allocated_size := ?new\<rparr>"
        from r Some a yes grow
        have i: "item = meta_size m"
          and m': "m' = ?m1\<lparr>meta_data := Some (store_u64 (store_u64 ?buf (meta_size ?m1 + 8) ty)
            (meta_size ?m1) (KDBUS_ITEM_HEADER_SIZE + p)), meta_size := meta_size ?m1 + ?extra\<rparr>"
          by (auto simp: kdbus_meta_append_item_def Let_def)
        have "parse_items ?buf 0 (unat (meta_size m)) = Some xs"
          using xs by (rule parse_items_agree) (simp add: grown_agree)
        then have 1: "parse_items ?buf 0 (unat (meta_size ?m1)) = Some xs" by simp
        have 2: "meta_size ?m1 AND 7 = 0" using al8 by simp
        have 3: "unat (meta_size ?m1) + unat p + 23 < 2 ^ 64" using fit64 by simp
        have 4: "meta_size ?m1 + ?extra \<le> allocated_size ?m1" using rsum by simp
        from append_item_insert [OF 1 2 3 4 m'] i show ?thesis by simp
      qed
    next
      case False
      from r Some False
      have i: "item = meta_size m"
        and m': "m' = m\<lparr>meta_data := Some (store_u64 (store_u64 buf (meta_size m + 8) ty)
          (meta_size m) (KDBUS_ITEM_HEADER_SIZE + p)), meta_size := meta_size m + ?extra\<rparr>"
        by (auto simp: kdbus_meta_append_item_def Let_def)
      have 4: "meta_size m + ?extra \<le> allocated_size m" using False by simp
      from append_item_insert [OF xs al8 fit64 4 m'] i show ?thesis by simp
    qed
  qed
  then show "item = meta_size m"
    and "meta_items m' = Some (xs @ [(ty, 16 + p)])"
    and "unat (meta_size m') = unat (meta_size m) + (unat p + 23) div 8 * 8"
    and "meta_inv m'" by simp_all
qed

lemma append_item_Inl:
  assumes r: "kdbus_meta_append_item (m, al) ty p = (Inl err, (m', al'))"
  shows "err = - ENOMEM" and "meta_size m' = meta_size m"
    and "meta_inv m \<Longrightarrow> meta_inv m' \<and> meta_items m' = meta_items m"
proof -
  have "err = - ENOMEM \<and> meta_size m' = meta_size m
      \<and> (meta_inv m \<longrightarrow> meta_inv m' \<and> meta_items m' = meta_items m)"
    using r
    by (auto simp: kdbus_meta_append_item_def Let_def meta_inv_def meta_items_def
        split: option.splits prod.splits if_splits)
  then show "err = - ENOMEM" and "meta_size m' = meta_size m"
    and "meta_inv m \<Longrightarrow> meta_inv m' \<and> meta_items m' = meta_items m" by simp_all
qed

lemma extendsI:
  assumes "\<And>k xs. meta_inv (fst st) \<Longrightarrow> meta_items (fst st) = Some xs \<Longrightarrow> room (fst st) (n + k)
    \<Longrightarrow> meta_inv (fst st') \<and> room (fst st') k \<and> (\<exists>ys. meta_items (fst st') = Some (xs @ ys))"
  shows "extends n st st'"
  unfolding extends_def using assms by blast

lemma extendsD:
  assumes "extends n st st'" and "meta_inv (fst st)" and "meta_items (fst st) = Some xs"
    and "room (fst st) (n + k)"
  shows "meta_inv (fst st') \<and> room (fst st') k \<and> (\<exists>ys. meta_items (fst st') = Some (xs @ ys))"
  using assms by (simp add: extends_def)

lemma room_mono: "room meta n \<Longrightarrow> k \<le> n \<Longrightarrow> room meta k"
  by (simp add: room_def)

lemma room_size: "meta_size meta' = meta_size meta \<Longrightarrow> room meta' n = room meta n"
  by (simp add: room_def)

lemma extends_same: "fst st' = fst st \<Longrightarrow> extends n st st'"
  by (rule extendsI) (auto intro: room_mono)

lemma extends_trans:
  assumes "extends a st st1" and "extends b st1 st2"
  shows "extends (a + b) st st2"
proof (rule extendsI)
  fix k xs
  assume "meta_inv (fst st)" "meta_items (fst st) = Some xs" "room (fst st) (a + b + k)"
  then have "meta_inv (fst st1) \<and> room (fst st1) (b + k) \<and> (\<exists>ys. meta_items (fst st1) = Some (xs @ ys))"
    by (intro extendsD [OF assms(1)]) (simp_all add: add.assoc)
  then obtain ys where 1: "meta_inv (fst st1)" "room (fst st1) (b + k)"
    "meta_items (fst st1) = Some (xs @ ys)" by blast
  from extendsD [OF assms(2) 1(1) 1(3) 1(2)]
  show "meta_inv (fst st2) \<and> room (fst st2) k \<and> (\<exists>ys. meta_items (fst st2) = Some (xs @ ys))"
    by auto
qed

lemma extends_mono:
  assumes "extends a st st'" and "a \<le> b"
  shows "extends b st st'"
proof (rule extendsI)
  fix k xs
  assume "meta_inv (fst st)" "meta_items (fst st) = Some xs" "room (fst st) (b + k)"
  with assms(2) have "meta_inv (fst st') \<and> room (fst st') (b - a + k)
      \<and> (\<exists>ys. meta_items (fst st') = Some (xs @ ys))"
    by (intro extendsD [OF assms(1)]) simp_all
  then show "meta_inv (fst st') \<and> room (fst st') k \<and> (\<exists>ys. meta_items (fst st') = Some (xs @ ys))"
    by (auto intro: room_mono)
qed

lemma item_open_extends:
  "item_open meta xs ty p item k \<Longrightarrow>
   meta_inv meta \<and> room meta k \<and> (\<exists>ys. meta_items meta = Some (xs @ ys))"
  by (simp add: item_open_def)

text \<open>A new item, and what it takes of the room.\<close>

lemma append_item_open:
  assumes r: "kdbus_meta_append_item st ty p = (Inr item, (m1, al1))"
    and inv: "meta_inv (fst st)" and items: "meta_items (fst st) = Some xs"
    and room: "room (fst st) (unat p + 23 + k)"
  shows "item_open m1 xs ty p item k"
proof -
  obtain m al where st: "st = (m, al)" by (cases st)
  from room st have fit: "unat (meta_size m) + unat p + 279 \<le> 2 ^ 63"
    by (simp add: room_def)
  note a = append_item_Inr [OF r [unfolded st] inv [unfolded st fst_conv] items [unfolded st fst_conv] fit]
  have "(unat p + 23) div 8 * 8 \<le> unat p + 23" by simp
  with a(3) room st have "room m1 k" by (simp add: room_def)
  moreover from fit a(1) have "unat item + unat p + 16 < 2 ^ 64" by simp
  ultimately show ?thesis using a by (simp add: item_open_def)
qed

lemma append_item_fails:
  assumes r: "kdbus_meta_append_item st ty p = (Inl err, st')"
  shows "extends n st st'"
proof (rule extendsI)
  fix k xs
  assume inv: "meta_inv (fst st)" and items: "meta_items (fst st) = Some xs"
    and room: "room (fst st) (n + k)"
  obtain m al m' al' where st: "st = (m, al)" "st' = (m', al')" by (cases st, cases st')
  note a = append_item_Inl [OF r [unfolded st]]
  from a(3) inv items st have "meta_inv m'" "meta_items m' = Some (xs @ [])" by simp_all
  moreover from room a(2) st have "room m' k" by (simp add: room_def)
  ultimately show "meta_inv (fst st') \<and> room (fst st') k
      \<and> (\<exists>ys. meta_items (fst st') = Some (xs @ ys))"
    using st by auto
qed

text \<open>Bytes copied into the payload of the new item.\<close>

lemma item_open_set_data:
  assumes o: "item_open meta xs ty p item k" and len: "c + length bytes \<le> unat p"
    and dst: "dst = item + 16 + of_nat c"
  shows "item_open (set_data meta dst bytes) xs ty p item k"
proof -
  from o have inv: "meta_inv meta" and items: "meta_items meta = Some (xs @ [(ty, 16 + p)])"
    and room: "room meta k" and size: "unat (meta_size meta) = unat item + (unat p + 23) div 8 * 8"
    and fit: "unat item + unat p + 16 < 2 ^ 64"
    by (simp_all add: item_open_def)
  from items obtain buf where buf: "meta_data meta = Some buf"
    by (cases "meta_data meta") (auto simp: meta_items_def split: if_splits)
  have c: "unat (of_nat c :: u64) = c"
    using len fit by (simp add: unat_of_nat)
  have d: "unat dst = unat item + 16 + c"
    using len fit c dst by (simp add: unat_word_ariths)
  have p16: "unat (16 + p) = unat p + 16"
    using fit by (simp add: unat_word_ariths)
  have "parse_items (write_bytes buf dst bytes) 0 (unat (meta_size meta)) = Some (xs @ [(ty, 16 + p)])"
  proof (rule parse_items_write_payload)
    show "parse_items buf 0 (unat (meta_size meta)) = Some (xs @ [(ty, 16 + p)])"
      using items buf by (simp add: meta_items_def)
    have "unat (16 + p) + 7 = unat p + 23" using p16 by simp
    then show "unat (meta_size meta) + 16 \<le> unat dst + (unat (16 + p) + 7) div 8 * 8"
      using size d by (simp only:)
    show "unat dst + length bytes \<le> 2 ^ 64"
      using d len fit by simp
  qed
  then have "meta_items (set_data meta dst bytes) = Some (xs @ [(ty, 16 + p)])"
    using buf by (simp add: meta_items_def set_data_def)
  moreover have "meta_size (set_data meta dst bytes) = meta_size meta"
    "allocated_size (set_data meta dst bytes) = allocated_size meta"
    using buf by (simp_all add: set_data_def)
  ultimately show ?thesis
    using inv room size fit by (simp add: item_open_def meta_inv_def room_def)
qed

lemma append_data_extends:
  assumes r: "kdbus_meta_append_data st ty data len = (ret, st')"
  shows "extends (unat len + 23) st st'"
proof (cases "len = 0")
  case True
  with r show ?thesis by (simp add: kdbus_meta_append_data_def extends_same)
next
  case False
  obtain res m1 al1 where i: "kdbus_meta_append_item st ty len = (res, (m1, al1))"
    by (metis surj_pair)
  show ?thesis
  proof (cases res)
    case (Inl err)
    with r False i have "st' = (m1, al1)" by (simp add: kdbus_meta_append_data_def)
    with i Inl show ?thesis by (simp add: append_item_fails)
  next
    case (Inr item)
    show ?thesis
    proof (rule extendsI)
      fix k xs
      assume "meta_inv (fst st)" "meta_items (fst st) = Some xs" "room (fst st) (unat len + 23 + k)"
      with i Inr have o: "item_open m1 xs ty len item k" by (intro append_item_open) simp_all
      show "meta_inv (fst st') \<and> room (fst st') k \<and> (\<exists>ys. meta_items (fst st') = Some (xs @ ys))"
      proof (cases data)
        case None
        with r False i Inr have "st' = (m1, al1)" by (simp add: kdbus_meta_append_data_def)
        with o show ?thesis by (simp add: item_open_extends)
      next
        case (Some bytes)
        with r False i Inr have "st' = (set_data m1 (item + 16) (take (unat len) bytes), al1)"
          by (simp add: kdbus_meta_append_data_def)
        moreover have "item_open (set_data m1 (item + 16) (take (unat len) bytes)) xs ty len item k"
          using o by (rule item_open_set_data [where c = 0]) simp_all
        ultimately show ?thesis by (simp add: item_open_extends)
      qed
    qed
  qed
qed

lemma append_str_extends:
  assumes "kdbus_meta_append_str st ty str = (ret, st')"
  shows "extends (length str + 24) st st'"
proof -
  have "unat (of_nat (length str) + 1 :: u64) \<le> length str + 1"
    using unat_add_of_nat_le [of "of_nat (length str)" 1] unat_of_nat_le [of "length str"] by simp
  then have "unat (of_nat (length str) + 1 :: u64) + 23 \<le> length str + 24" by simp
  with append_data_extends [OF assms [unfolded kdbus_meta_append_str_def]]
  show ?thesis by (rule extends_mono)
qed

lemma extends_fst: "fst st1 = fst st \<Longrightarrow> extends n st1 st' \<Longrightarrow> extends n st st'"
  unfolding extends_def by auto

lemma meta_items_attached [simp]: "meta_items (meta\<lparr>attached := a\<rparr>) = meta_items meta"
  by (cases "meta_data meta") (simp_all add: meta_items_def)

lemma meta_inv_attached [simp]: "meta_inv (meta\<lparr>attached := a\<rparr>) = meta_inv meta"
  by (simp add: meta_inv_def)

lemma room_attached [simp]: "room (meta\<lparr>attached := a\<rparr>) n = room meta n"
  by (simp add: room_def)

lemma extends_attached: "extends n st (meta, al) \<Longrightarrow> extends n st (meta\<lparr>attached := a\<rparr>, al)"
  unfolding extends_def by (simp only: fst_conv meta_items_attached meta_inv_attached room_attached)

text \<open>An item and the bytes then copied into it.\<close>

lemma item_block:
  assumes i: "kdbus_meta_append_item st ty p = (Inr item, (m1, al1))"
    and w: "\<And>xs k. room (fst st) (n + k) \<Longrightarrow> item_open m1 xs ty p item k \<Longrightarrow> item_open m2 xs ty p item k"
    and c: "unat p + 23 \<le> n"
  shows "extends n st (m2, al1)"
proof (rule extendsI)
  fix k xs
  assume inv: "meta_inv (fst st)" and items: "meta_items (fst st) = Some xs"
    and room: "room (fst st) (n + k)"
  from room c have "room (fst st) (unat p + 23 + k)" by (auto intro: room_mono)
  with i inv items have "item_open m1 xs ty p item k" by (rule append_item_open)
  with room have "item_open m2 xs ty p item k" by (rule w)
  then show "meta_inv (fst (m2, al1)) \<and> room (fst (m2, al1)) k
      \<and> (\<exists>ys. meta_items (fst (m2, al1)) = Some (xs @ ys))"
    by (simp add: item_open_extends)
qed

lemma timestamp_extends:
  assumes r: "kdbus_meta_append_timestamp env st seq = (ret, st')"
  shows "extends 47 st st'"
proof -
  obtain res m1 al1 where i: "kdbus_meta_append_item st KDBUS_ITEM_TIMESTAMP 24 = (res, (m1, al1))"
    by (metis surj_pair)
  show ?thesis
  proof (cases res)
    case (Inl err)
    with r i have "st' = (m1, al1)" by (simp add: kdbus_meta_append_timestamp_def)
    with i Inl show ?thesis by (simp add: append_item_fails)
  next
    case (Inr item)
    let ?m1 = "if seq > 0 then set_data m1 (item + 16) (u64_bytes seq) else m1"
    let ?m2 = "set_data ?m1 (item + 24) (u64_bytes (monotonic_ns env))"
    let ?m3 = "set_data ?m2 (item + 32) (u64_bytes (realtime_ns env))"
    from r i Inr have st': "st' = (?m3, al1)"
      by (simp add: kdbus_meta_append_timestamp_def Let_def)
    have "extends 47 st (?m3, al1)"
    proof (rule item_block)
      show "kdbus_meta_append_item st KDBUS_ITEM_TIMESTAMP 24 = (Inr item, (m1, al1))"
        using i Inr by simp
      show "unat (24 :: u64) + 23 \<le> 47" by simp
      fix xs k
      assume o: "item_open m1 xs KDBUS_ITEM_TIMESTAMP 24 item k"
      have "item_open (set_data m1 (item + 16) (u64_bytes seq)) xs KDBUS_ITEM_TIMESTAMP 24 item k"
        using o by (rule item_open_set_data [where c = 0]) simp_all
      with o have "item_open ?m1 xs KDBUS_ITEM_TIMESTAMP 24 item k" by simp
      then have "item_open ?m2 xs KDBUS_ITEM_TIMESTAMP 24 item k"
        by (rule item_open_set_data [where c = 8]) simp_all
      then show "item_open ?m3 xs KDBUS_ITEM_TIMESTAMP 24 item k"
        by (rule item_open_set_data [where c = 16]) simp_all
    qed
    with st' show ?thesis by simp
  qed
qed

lemma length_concat_u64_bytes:
  "length (concat (map (\<lambda>g. u64_bytes (f g)) gs)) = 8 * length gs"
  by (induction gs) simp_all

lemma auxgroups_extends:
  assumes r: "kdbus_meta_append_auxgroups env st = (ret, st')"
  shows "extends (8 * length (group_info env) + 23) st st'"
proof -
  let ?n = "length (group_info env)"
  let ?p = "of_nat ?n * 8 :: u64"
  obtain res m1 al1 where i: "kdbus_meta_append_item st KDBUS_ITEM_AUXGROUPS ?p = (res, (m1, al1))"
    by (metis surj_pair)
  have p_le: "unat ?p \<le> 8 * ?n"
    using unat_of_nat_le [of "?n * 8"] by (simp add: mult.commute)
  show ?thesis
  proof (cases res)
    case (Inl err)
    with r i have "st' = (m1, al1)" by (simp add: kdbus_meta_append_auxgroups_def)
    with i Inl show ?thesis by (simp add: append_item_fails)
  next
    case (Inr item)
    let ?bytes = "concat (map (\<lambda>gid. u64_bytes (ucast gid)) (group_info env))"
    from r i Inr have st': "st' = (set_data m1 (item + 16) ?bytes, al1)"
      by (simp add: kdbus_meta_append_auxgroups_def)
    have "extends (8 * ?n + 23) st (set_data m1 (item + 16) ?bytes, al1)"
    proof (rule item_block)
      show "kdbus_meta_append_item st KDBUS_ITEM_AUXGROUPS ?p = (Inr item, (m1, al1))"
        using i Inr by simp
      show "unat ?p + 23 \<le> 8 * ?n + 23" using p_le by simp
      fix xs k
      assume room: "room (fst st) (8 * ?n + 23 + k)"
        and o: "item_open m1 xs KDBUS_ITEM_AUXGROUPS ?p item k"
      from room have "?n * 8 < 2 ^ 64" by (simp add: room_def)
      then have "unat (of_nat (?n * 8) :: u64) = ?n * 8" unfolding unat_of_nat by simp
      moreover have "?p = of_nat (?n * 8)" by simp
      ultimately have p: "unat ?p = 8 * ?n" by (simp only: mult.commute)
      show "item_open (set_data m1 (item + 16) ?bytes) xs KDBUS_ITEM_AUXGROUPS ?p item k"
      proof (rule item_open_set_data [where c = 0, OF o])
        show "0 + length ?bytes \<le> unat ?p" using p by (simp add: length_concat_u64_bytes)
        show "item + 16 = item + 16 + of_nat 0" by simp
      qed
    qed
    with st' show ?thesis by simp
  qed
qed

lemma length_c_str [simp]: "length (c_str s) = length s + 1"
  by (simp add: c_str_def)

lemma append_names_extends:
  "append_names st es = (ret, st') \<Longrightarrow>
   extends (sum_list (map (\<lambda>e. length (snd e) + 32) es)) st st'"
proof (induction st es rule: append_names.induct)
  case (1 st)
  then show ?case by (simp add: extends_same)
next
  case (2 st flags nm es)
  let ?p = "8 + (of_nat (length nm) + 1) :: u64"
  obtain res m1 al1 where i: "kdbus_meta_append_item st KDBUS_ITEM_NAME ?p = (res, (m1, al1))"
    by (metis surj_pair)
  have p_le: "unat ?p \<le> length nm + 9"
    using unat_add_of_nat_le [of "8 + of_nat (length nm)" 1]
      unat_add_of_nat_le [of 8 "length nm"] by (simp add: add.assoc)
  show ?case
  proof (cases res)
    case (Inl err)
    with 2(2) i have "st' = (m1, al1)" by simp
    with i Inl show ?thesis by (simp add: append_item_fails)
  next
    case (Inr item)
    let ?m2 = "set_data (set_data m1 (item + 16) (u64_bytes flags)) (item + 24) (c_str nm)"
    from 2(2) i Inr have rest: "append_names (?m2, al1) es = (ret, st')" by simp
    have tl: "extends (sum_list (map (\<lambda>e. length (snd e) + 32) es)) (?m2, al1) st'"
      using i Inr rest by (intro 2(1)) simp_all
    have "extends (length nm + 32) st (?m2, al1)"
    proof (rule item_block)
      show "kdbus_meta_append_item st KDBUS_ITEM_NAME ?p = (Inr item, (m1, al1))"
        using i Inr by simp
      show "unat ?p + 23 \<le> length nm + 32" using p_le by simp
      fix xs k
      assume room: "room (fst st) (length nm + 32 + k)"
        and o: "item_open m1 xs KDBUS_ITEM_NAME ?p item k"
      from room have "length nm + 9 < 2 ^ 64" by (simp add: room_def)
      then have p: "unat ?p = length nm + 9"
        by (simp add: unat_word_ariths unat_of_nat)
      have o1: "item_open (set_data m1 (item + 16) (u64_bytes flags)) xs KDBUS_ITEM_NAME ?p item k"
      proof (rule item_open_set_data [where c = 0, OF o])
        show "0 + length (u64_bytes flags) \<le> unat ?p" using p by simp
        show "item + 16 = item + 16 + of_nat 0" by simp
      qed
      show "item_open ?m2 xs KDBUS_ITEM_NAME ?p item k"
      proof (rule item_open_set_data [where c = 8, OF o1])
        show "8 + length (c_str nm) \<le> unat ?p" using p by simp
        show "item + 24 = item + 16 + of_nat 8" by simp
      qed
    qed
    then have "extends (length nm + 32 + sum_list (map (\<lambda>e. length (snd e) + 32) es)) st st'"
      using tl by (rule extends_trans)
    then show ?thesis by simp
  qed
qed

lemma cred_extends:
  "kdbus_meta_append_cred env st = (ret, st') \<Longrightarrow> extends 63 st st'"
  using append_data_extends [of st KDBUS_ITEM_CREDS _ 40 ret st']
  by (simp add: kdbus_meta_append_cred_def)

lemma caps_extends:
  "kdbus_meta_append_caps env st = (ret, st') \<Longrightarrow> extends 55 st st'"
  using append_data_extends [of st KDBUS_ITEM_CAPS _ 32 ret st']
  by (simp add: kdbus_meta_append_caps_def)

lemma audit_extends:
  "kdbus_meta_append_audit env st = (ret, st') \<Longrightarrow> extends 39 st st'"
  using append_data_extends [of st KDBUS_ITEM_AUDIT _ 16 ret st']
  by (simp add: kdbus_meta_append_audit_def)

lemma src_names_extends:
  "kdbus_meta_append_src_names st conn = (ret, st') \<Longrightarrow>
   extends (case conn of None \<Rightarrow> 0
            | Some c \<Rightarrow> sum_list (map (\<lambda>e. length (snd e) + 32) (names_list c))) st st'"
  by (cases conn) (simp_all add: kdbus_meta_append_src_names_def extends_same append_names_extends)

lemma comm_extends:
  assumes r: "kdbus_meta_append_comm env st = (ret, st')"
  shows "extends 78 st st'"
proof -
  let ?a = "take 15 (group_leader_comm env)" and ?b = "take 15 (task_comm env)"
  obtain r1 st1 where 1: "kdbus_meta_append_str st KDBUS_ITEM_TID_COMM ?a = (r1, st1)"
    by (metis surj_pair)
  have e1: "extends 39 st st1"
    by (rule extends_mono [OF append_str_extends [OF 1]]) simp
  show ?thesis
  proof (cases "r1 < 0")
    case True
    with r 1 have "st' = st1" by (simp add: kdbus_meta_append_comm_def)
    with e1 show ?thesis by (auto intro: extends_mono)
  next
    case False
    with r 1 have 2: "kdbus_meta_append_str st1 KDBUS_ITEM_PID_COMM ?b = (ret, st')"
      by (simp add: kdbus_meta_append_comm_def)
    have "extends 39 st1 st'"
      by (rule extends_mono [OF append_str_extends [OF 2]]) simp
    with e1 have "extends (39 + 39) st st'" by (rule extends_trans)
    then show ?thesis by simp
  qed
qed

lemma exe_extends:
  assumes r: "kdbus_meta_append_exe env st = (ret, st')"
  shows "extends (case mm env of None \<Rightarrow> 0
      | Some m \<Rightarrow> (case exe_file m of Some (Inr pathname) \<Rightarrow> length pathname + 24 | _ \<Rightarrow> 0)) st st'"
proof (cases "\<exists>m pathname page al'. mm env = Some m \<and> exe_file m = Some (Inr pathname)
    \<and> alloc (snd st) = (Some page, al')")
  case True
  then obtain m pathname page al' where c: "mm env = Some m" "exe_file m = Some (Inr pathname)"
    "alloc (snd st) = (Some page, al')" by blast
  with r have "kdbus_meta_append_str (fst st, al') KDBUS_ITEM_EXE pathname = (ret, st')"
    by (simp add: kdbus_meta_append_exe_def kdbus_meta_append_str_def)
  then have "extends (length pathname + 24) (fst st, al') st'" by (rule append_str_extends)
  then have "extends (length pathname + 24) st st'" by (rule extends_fst [rotated]) simp
  with c show ?thesis by simp
next
  case False
  with r have "fst st' = fst st"
    by (auto simp: kdbus_meta_append_exe_def split: option.splits prod.splits sum.splits)
  then show ?thesis by (rule extends_same)
qed

lemma cmdline_extends:
  assumes r: "kdbus_meta_append_cmdline env st = (ret, st')"
  shows "extends 4119 st st'"
proof (cases "\<exists>m page al'. mm env = Some m \<and> arg_end m \<noteq> 0 \<and> alloc (snd st) = (Some page, al')")
  case True
  then obtain m page al' where c: "mm env = Some m" "arg_end m \<noteq> 0"
    "alloc (snd st) = (Some page, al')" by blast
  let ?len0 = "arg_end m - arg_start m"
  let ?len = "if ?len0 > PAGE_SIZE then PAGE_SIZE else ?len0"
  from r c obtain tmp where
    "kdbus_meta_append_data (fst st, al') KDBUS_ITEM_CMDLINE (Some tmp) ?len = (ret, st')"
    by (simp add: kdbus_meta_append_cmdline_def Let_def)
  then have "extends (unat ?len + 23) (fst st, al') st'" by (rule append_data_extends)
  moreover have "?len \<le> 4096" by (simp add: PAGE_SIZE_def not_less)
  then have "unat ?len + 23 \<le> 4119" by (simp only: word_le_nat_alt) simp
  ultimately have "extends 4119 (fst st, al') st'" by (rule extends_mono)
  then show ?thesis by (rule extends_fst [rotated]) simp
next
  case False
  with r have "fst st' = fst st"
    by (auto simp: kdbus_meta_append_cmdline_def Let_def split: option.splits prod.splits if_splits)
  then show ?thesis by (rule extends_same)
qed

lemma cgroup_extends:
  assumes r: "kdbus_meta_append_cgroup env st = (ret, st')"
  shows "extends (case cgroup_path env of None \<Rightarrow> 0 | Some path \<Rightarrow> length path + 24) st st'"
proof (cases "\<exists>path page al'. cgroup_path env = Some path \<and> alloc (snd st) = (Some page, al')")
  case True
  then obtain path page al' where c: "cgroup_path env = Some path"
    "alloc (snd st) = (Some page, al')" by blast
  with r have "kdbus_meta_append_str (fst st, al') KDBUS_ITEM_CGROUP path = (ret, st')"
    by (simp add: kdbus_meta_append_cgroup_def)
  then have "extends (length path + 24) (fst st, al') st'" by (rule append_str_extends)
  then have "extends (length path + 24) st st'" by (rule extends_fst [rotated]) simp
  with c show ?thesis by simp
next
  case False
  with r have "fst st' = fst st"
    by (auto simp: kdbus_meta_append_cgroup_def split: option.splits prod.splits)
  then show ?thesis by (rule extends_same)
qed

lemma seclabel_extends:
  assumes r: "kdbus_meta_append_seclabel env st = (ret, st')"
  shows "extends (case secctx_label env of None \<Rightarrow> 0 | Some label \<Rightarrow> length label + 23) st st'"
proof (cases "\<exists>label. secctx_label env = Some label \<and> length label > 0
    \<and> secctx_ret env \<noteq> - EOPNOTSUPP \<and> \<not> secctx_ret env < 0")
  case True
  then obtain label where c: "secctx_label env = Some label" "length label > 0"
    "secctx_ret env \<noteq> - EOPNOTSUPP" "\<not> secctx_ret env < 0" by blast
  with r have "kdbus_meta_append_data st KDBUS_ITEM_SECLABEL (Some label) (of_nat (length label))
      = (ret, st')"
    by (simp add: kdbus_meta_append_seclabel_def)
  then have "extends (unat (of_nat (length label) :: u64) + 23) st st'"
    by (rule append_data_extends)
  then have "extends (length label + 23) st st'"
    by (rule extends_mono) (simp add: unat_of_nat_le)
  with c show ?thesis by simp
next
  case False
  with r have "fst st' = fst st"
    by (auto simp: kdbus_meta_append_seclabel_def split: option.splits if_splits)
  then show ?thesis by (rule extends_same)
qed

lemma run_appends_extends:
  assumes "list_all2 (\<lambda>b c. \<forall>st ret st'. snd b st = (ret, st') \<longrightarrow> extends c st st') blocks costs"
    and "run_appends blocks st = (ret, st')"
  shows "extends (sum_list costs) st st'"
  using assms
proof (induction blocks costs arbitrary: st rule: list_all2_induct)
  case Nil
  then show ?case by (simp add: extends_same)
next
  case (Cons b blocks c costs)
  obtain cond f where b: "b = (cond, f)" by (cases b)
  show ?case
  proof (cases cond)
    case False
    with Cons(4) b have "run_appends blocks st = (ret, st')" by simp
    then have "extends (sum_list costs) st st'" by (rule Cons(3))
    then show ?thesis by (rule extends_mono) simp
  next
    case True
    obtain r1 st1 where f: "f st = (r1, st1)" by (cases "f st")
    with Cons(1) b have e1: "extends c st st1" by (cases st, cases st1) simp
    show ?thesis
    proof (cases "r1 < 0")
      case neg: True
      with Cons(4) b True f have "st' = st1" by simp
      with e1 show ?thesis by (auto intro: extends_mono)
    next
      case nonneg: False
      with Cons(4) b True f have "run_appends blocks st1 = (ret, st')" by simp
      then have "extends (sum_list costs) st1 st'" by (rule Cons(3))
      with e1 have "extends (c + sum_list costs) st st'" by (rule extends_trans)
      then show ?thesis by simp
    qed
  qed
qed

lemma append_blocks_extends:
  "list_all2 (\<lambda>b c. \<forall>st ret st'. snd b st = (ret, st') \<longrightarrow> extends c st st')
     (append_blocks env conn seq msk) (append_costs env conn)"
  by (simp add: append_blocks_def append_costs_def timestamp_extends cred_extends auxgroups_extends
      src_names_extends comm_extends exe_extends cmdline_extends caps_extends cgroup_extends
      audit_extends seclabel_extends append_str_extends)

text \<open>
  One call of \<^verbatim>\<open>kdbus_meta_append\<close>, whatever it returns, keeps the invariant and the
  items that were there, when there is room for what it appends.
\<close>

lemma kdbus_meta_append_extends:
  assumes r: "kdbus_meta_append env st conn seq which = (ret, st')"
  shows "extends (append_cost env conn) st st'"
proof (cases "which AND NOT (attached (fst st)) = 0")
  case True
  with r have "st' = st" by (simp add: kdbus_meta_append_def)
  then show ?thesis by (simp add: extends_same)
next
  case False
  let ?msk = "which AND NOT (attached (fst st))"
  obtain r1 meta al where run: "run_appends (append_blocks env conn seq ?msk) st = (r1, (meta, al))"
    by (metis surj_pair)
  have e: "extends (append_cost env conn) st (meta, al)"
    unfolding append_cost_def by (rule run_appends_extends [OF append_blocks_extends run])
  from r False run have "st' = (meta, al) \<or> st' = (meta\<lparr>attached := attached meta OR ?msk\<rparr>, al)"
    by (auto simp: kdbus_meta_append_def Let_def split: if_splits)
  with e show ?thesis by (auto intro: extends_attached)
qed

lemma parse_items_sound:
  "parse_items mem off e = Some xs \<Longrightarrow>
   (\<forall>x \<in> set xs. 16 \<le> snd x) \<and> off + sum_list (map (\<lambda>x. (unat (snd x) + 7) div 8 * 8) xs) = e"
proof (induction mem off e arbitrary: xs rule: parse_items.induct)
  case (1 mem off e)
  from 1(2) have le: "off \<le> e" by (rule parse_items_le)
  show ?case
  proof (cases "off = e")
    case True
    with 1(2) show ?thesis by simp
  next
    case False
    with le have lt: "off < e" by simp
    let ?sz = "load_u64 mem (of_nat off)"
    let ?next = "off + (unat ?sz + 7) div 8 * 8"
    from 1(2) lt obtain rest where xs: "xs = (load_u64 mem (of_nat off + 8), ?sz) # rest"
      and sz: "16 \<le> ?sz" and al: "off mod 8 = 0"
      and rest: "parse_items mem ?next e = Some rest"
      by (auto simp: parse_items_step)
    have "(\<forall>x \<in> set rest. 16 \<le> snd x)
        \<and> ?next + sum_list (map (\<lambda>x. (unat (snd x) + 7) div 8 * 8) rest) = e"
      using False lt sz al rest by (intro 1(1)) (auto simp: not_less)
    with xs sz show ?thesis by simp
  qed
qed

text \<open>
  What the invariant says of the items: each declares at least the 16 bytes of its
  header, and their sizes, each rounded up to 8 bytes, add up to \<^verbatim>\<open>meta->size\<close>.
\<close>

lemma meta_inv_items:
  assumes "meta_inv meta"
  shows "\<exists>xs. meta_items meta = Some xs \<and> (\<forall>x \<in> set xs. 16 \<le> snd x)
    \<and> sum_list (map (\<lambda>x. (unat (snd x) + 7) div 8 * 8) xs) = unat (meta_size meta)"
proof -
  from assms obtain xs where xs: "meta_items meta = Some xs" by (auto simp: meta_inv_def)
  show ?thesis
  proof (cases "meta_data meta")
    case None
    with xs show ?thesis by (auto simp: meta_items_def split: if_splits)
  next
    case (Some buf)
    with xs have "parse_items buf 0 (unat (meta_size meta)) = Some xs" by (simp add: meta_items_def)
    from parse_items_sound [OF this] xs show ?thesis by simp
  qed
qed

text \<open>
  Claim C8, as the code has it. \<^verbatim>\<open>kdbus_meta_append_data\<close> with no data and a length
  of \<open>2\<^sup>6\<^sup>4 - 15\<close> returns 0: the size of the item wraps to 8 bytes and its header
  declares 1 byte, so that the 8 bytes in use are no row of items.
\<close>

theorem append_data_wraps:
  "meta_inv meta0
   \<and> view (kdbus_meta_append_data (meta0, al0) KDBUS_ITEM_SECLABEL None (- 15)) = (0, 8, 512, 0, None)
   \<and> \<not> meta_inv (fst (snd (kdbus_meta_append_data (meta0, al0) KDBUS_ITEM_SECLABEL None (- 15))))"
  by code_simp

text \<open>
  Claim C8, amended: when the bytes in use, the bytes to append (for each item its payload,
  16 bytes of header and up to 7 of padding) and the 256 bytes of the first allocation
  stay within \<open>2\<^sup>6\<^sup>3\<close>, an object that satisfies the invariant satisfies it after
  a successful \<^verbatim>\<open>kdbus_meta_append_item\<close>, which adds one item of the declared size
  16 + payload, after a successful \<^verbatim>\<open>kdbus_meta_append_data\<close>, and after
  \<^verbatim>\<open>kdbus_meta_append\<close>.
\<close>

theorem append_keeps_meta_inv:
  assumes "meta_inv meta" and "meta_items meta = Some xs"
  shows "(room meta (unat payload_size + 23)
            \<and> kdbus_meta_append_item (meta, al) ty payload_size = (Inr item, (m1, al1))
          \<longrightarrow> meta_inv m1 \<and> meta_items m1 = Some (xs @ [(ty, 16 + payload_size)])
              \<and> item = meta_size meta
              \<and> unat (meta_size m1) = unat (meta_size meta) + (unat payload_size + 23) div 8 * 8)
       \<and> (room meta (unat len + 23)
            \<and> kdbus_meta_append_data (meta, al) ty data len = (0, (m2, al2))
          \<longrightarrow> meta_inv m2)
       \<and> (room meta (append_cost env conn)
            \<and> kdbus_meta_append env (meta, al) conn seq which = (ret, (m3, al3))
          \<longrightarrow> meta_inv m3)"
proof (intro conjI impI; elim conjE)
  assume room: "room meta (unat payload_size + 23)"
    and r: "kdbus_meta_append_item (meta, al) ty payload_size = (Inr item, (m1, al1))"
  from room have "unat (meta_size meta) + unat payload_size + 279 \<le> 2 ^ 63"
    by (simp add: room_def)
  from append_item_Inr [OF r assms this]
  show "meta_inv m1" and "meta_items m1 = Some (xs @ [(ty, 16 + payload_size)])"
    and "item = meta_size meta"
    and "unat (meta_size m1) = unat (meta_size meta) + (unat payload_size + 23) div 8 * 8"
    by simp_all
next
  assume room: "room meta (unat len + 23)"
    and r: "kdbus_meta_append_data (meta, al) ty data len = (0, (m2, al2))"
  from extendsD [OF append_data_extends [OF r], of xs 0] assms room
  show "meta_inv m2" by simp
next
  assume room: "room meta (append_cost env conn)"
    and r: "kdbus_meta_append env (meta, al) conn seq which = (ret, (m3, al3))"
  from extendsD [OF kdbus_meta_append_extends [OF r], of xs 0] assms room
  show "meta_inv m3" by simp
qed

lemma meta0_inv: "meta_inv meta0 \<and> meta_items meta0 = Some []"
  by (simp add: meta_inv_def meta_items_def meta0_def)

lemma meta0_room: "room meta0 63 \<and> room meta0 (append_cost env0 (Some conn0))"
  by (simp add: room_def meta0_def append_cost_def append_costs_def env0_def conn0_def)

theorem append_keeps_meta_inv_witness:
  "meta_inv meta0 \<and> room meta0 63 \<and> room meta0 (append_cost env0 (Some conn0))
   \<and> meta_inv (fst (snd (kdbus_meta_append_item (meta0, al0) KDBUS_ITEM_CREDS 40)))
   \<and> meta_items (fst (snd (kdbus_meta_append_item (meta0, al0) KDBUS_ITEM_CREDS 40)))
       = Some [(KDBUS_ITEM_CREDS, 56)]
   \<and> fst (kdbus_meta_append_data (meta0, al0) KDBUS_ITEM_CREDS None 40) = 0
   \<and> meta_inv (fst (snd (kdbus_meta_append_data (meta0, al0) KDBUS_ITEM_CREDS None 40)))
   \<and> view (kdbus_meta_append env0 (meta0, al0) (Some conn0) 42 0x809)
       = (0, 144, 512, 0x809,
          Some [(KDBUS_ITEM_TIMESTAMP, 40), (KDBUS_ITEM_NAME, 38), (KDBUS_ITEM_NAME, 38),
                (KDBUS_ITEM_CONN_NAME, 24)])
   \<and> meta_inv (fst (snd (kdbus_meta_append env0 (meta0, al0) (Some conn0) 42 0x809)))"
proof -
  let ?i = "kdbus_meta_append_item (meta0, al0) KDBUS_ITEM_CREDS 40"
  let ?d = "kdbus_meta_append_data (meta0, al0) KDBUS_ITEM_CREDS None 40"
  let ?a = "kdbus_meta_append env0 (meta0, al0) (Some conn0) 42 0x809"
  have "case fst ?i of Inl _ \<Rightarrow> False | Inr _ \<Rightarrow> True" by code_simp
  then obtain item m1 al1 where i: "?i = (Inr item, (m1, al1))"
    by (cases ?i, cases "fst ?i") auto
  have d0: "fst ?d = 0" by code_simp
  then obtain m2 al2 where d: "?d = (0, (m2, al2))" by (metis prod.collapse)
  obtain ret m3 al3 where a: "?a = (ret, (m3, al3))" by (metis prod.collapse)
  have v: "view ?a = (0, 144, 512, 0x809,
          Some [(KDBUS_ITEM_TIMESTAMP, 40), (KDBUS_ITEM_NAME, 38), (KDBUS_ITEM_NAME, 38),
                (KDBUS_ITEM_CONN_NAME, 24)])" by code_simp
  from append_keeps_meta_inv [where meta = meta0 and xs = "[]" and payload_size = 40 and al = al0
      and ty = KDBUS_ITEM_CREDS and item = item and ?m1.0 = m1 and ?al1.0 = al1 and len = 40
      and data = None and ?m2.0 = m2 and ?al2.0 = al2 and env = env0 and conn = "Some conn0"
      and seq = 42 and which = "0x809" and ret = ret and ?m3.0 = m3 and ?al3.0 = al3]
    meta0_inv meta0_room i d a
  have "meta_inv m1 \<and> meta_items m1 = Some [(KDBUS_ITEM_CREDS, 16 + 40)] \<and> meta_inv m2 \<and> meta_inv m3"
    by simp
  with i d a d0 v meta0_inv meta0_room show ?thesis by simp
qed



end
